theory Spec2Isabelle
  imports Complex_Main "HOL-Library.Sublist"
begin

section \<open>JavaScript values used by the pipeline\<close>

text \<open>
  A JavaScript string is a list of UTF-16 code units, each a natural number; \<open>js\<close> turns a
  literal of ASCII characters into its code units. A JavaScript \<open>number\<close> is modelled as a
  real, with \<open>NaN\<close> as a value of its own, because \<open>Number\<close> yields it on a field that is no
  numeral and every arithmetic operation passes it on. \<open>Number\<close> rounds an integer to the
  nearest double, as the source does; the arithmetic after it is exact, which agrees with
  the source as long as the values are integers below \<open>2^53\<close>. Infinities are outside the model.
\<close>

type_synonym jstring = "nat list"

definition js :: "string \<Rightarrow> jstring" where
  "js s = map of_char s"

datatype number = NaN | Num real

text \<open>\<open>s.split(sep)\<close> for a one-unit separator: always at least one part.\<close>

fun split_js :: "'a \<Rightarrow> 'a list \<Rightarrow> 'a list list" where
  "split_js sep [] = [[]]"
| "split_js sep (c # cs) =
     (if c = sep then [] # split_js sep cs
      else (let parts = split_js sep cs in (c # hd parts) # tl parts))"

text \<open>\<open>xs.join(sep)\<close>.\<close>

fun join_js :: "'a list \<Rightarrow> 'a list list \<Rightarrow> 'a list" where
  "join_js sep [] = []"
| "join_js sep [x] = x"
| "join_js sep (x # y # ys) = x @ sep @ join_js sep (y # ys)"

text \<open>Array element access: \<open>xs[i]\<close> is \<open>undefined\<close> out of range.\<close>

definition at_js :: "'a list \<Rightarrow> nat \<Rightarrow> 'a option" where
  "at_js xs i = (if i < length xs then Some (xs ! i) else None)"

text \<open>The digits \<open>0\<close> to \<open>9\<close> are the code units 48 to 57.\<close>

definition isDigit :: "nat \<Rightarrow> bool" where
  "isDigit u = (48 \<le> u \<and> u \<le> 57)"

definition digitValue :: "nat \<Rightarrow> nat" where
  "digitValue u = u - 48"

definition digitChar :: "nat \<Rightarrow> nat" where
  "digitChar d = 48 + d"

definition decimalValue :: "jstring \<Rightarrow> nat" where
  "decimalValue s = foldl (\<lambda>acc u. 10 * acc + digitValue u) 0 s"

text \<open>
  The double nearest to a natural number, ties to the even mantissa: a number of more than
  53 bits keeps its 53 leading bits, rounded. (Beyond the largest double the source has
  \<open>Infinity\<close>, which is not modelled.)
\<close>

function bitLength :: "nat \<Rightarrow> nat" where
  "bitLength n = (if n = 0 then 0 else 1 + bitLength (n div 2))"
  by pat_completeness auto
termination
  by (relation "measure id") auto

declare bitLength.simps [simp del]

definition toDouble :: "nat \<Rightarrow> nat" where
  "toDouble n =
     (let bits = bitLength n
      in if bits \<le> 53 then n
         else (let shift = bits - 53;
                   q = n div 2 ^ shift;
                   r = n mod 2 ^ shift;
                   half = 2 ^ (shift - 1)
               in (if half < r \<or> (r = half \<and> odd q) then q + 1 else q) * 2 ^ shift))"

text \<open>
  \<open>Number(s)\<close> on a string of decimal digits (the empty string is 0): its value, rounded
  to a double. Signs, decimal points, exponents, other radixes and surrounding white space
  are not modelled: such a string is taken to \<open>NaN\<close> here, and what is proved of timestamps
  below is about fields of decimal digits.
\<close>

definition Number :: "jstring \<Rightarrow> number" where
  "Number s = (if list_all isDigit s then Num (real (toDouble (decimalValue s))) else NaN)"

text \<open>Decimal digits of a natural number, as \<open>String(n)\<close> prints them.\<close>

function decimal :: "nat \<Rightarrow> jstring" where
  "decimal n =
     (if n < 10 then [digitChar n]
      else decimal (n div 10) @ [digitChar (n mod 10)])"
  by pat_completeness auto
termination
  by (relation "measure id") auto

declare decimal.simps [simp del]

text \<open>
  \<open>String(x)\<close> for a number. \<open>NaN\<close> prints as such. A finite number prints its sign, the
  digits of its integer part and, when it has a fraction, a point and the digits of the
  fraction, found by long division up to 20 places (JavaScript prints the shortest digits
  that identify the double, and an exponent from \<open>1e21\<close>; on integers below that the two
  agree).
\<close>

fun fractionDigits :: "nat \<Rightarrow> real \<Rightarrow> jstring" where
  "fractionDigits 0 x = []"
| "fractionDigits (Suc k) x =
     (if x = 0 then []
      else digitChar (nat \<lfloor>x * 10\<rfloor>) # fractionDigits k (x * 10 - of_int \<lfloor>x * 10\<rfloor>))"

fun String_js :: "number \<Rightarrow> jstring" where
  "String_js NaN = js ''NaN''"
| "String_js (Num r) =
     (let fraction = fractionDigits 20 (\<bar>r\<bar> - of_int \<lfloor>\<bar>r\<bar>\<rfloor>)
      in (if r < 0 then js ''-'' else []) @ decimal (nat \<lfloor>\<bar>r\<bar>\<rfloor>) @
         (if fraction = [] then [] else js ''.'' @ fraction))"

definition padStart :: "nat \<Rightarrow> 'a \<Rightarrow> 'a list \<Rightarrow> 'a list" where
  "padStart n c s = replicate (n - length s) c @ s"

text \<open>Arithmetic on numbers: \<open>NaN\<close> is absorbing.\<close>

fun num_add :: "number \<Rightarrow> number \<Rightarrow> number" where
  "num_add (Num a) (Num b) = Num (a + b)"
| "num_add _ _ = NaN"

fun num_mul :: "number \<Rightarrow> number \<Rightarrow> number" where
  "num_mul (Num a) (Num b) = Num (a * b)"
| "num_mul _ _ = NaN"

text \<open>Division and remainder by a non-zero constant; \<open>%\<close> takes the sign of the dividend.\<close>

fun num_div :: "number \<Rightarrow> real \<Rightarrow> number" where
  "num_div (Num a) d = Num (a / d)"
| "num_div NaN d = NaN"

fun num_rem :: "number \<Rightarrow> real \<Rightarrow> number" where
  "num_rem (Num a) d =
     Num (a - d * of_int (if 0 \<le> a / d then \<lfloor>a / d\<rfloor> else \<lceil>a / d\<rceil>))"
| "num_rem NaN d = NaN"

fun Math_floor :: "number \<Rightarrow> number" where
  "Math_floor (Num a) = Num (of_int \<lfloor>a\<rfloor>)"
| "Math_floor NaN = NaN"

text \<open>An \<open>undefined\<close> operand of an arithmetic operation is \<open>NaN\<close>.\<close>

definition to_number :: "number option \<Rightarrow> number" where
  "to_number v = (case v of None \<Rightarrow> NaN | Some x \<Rightarrow> x)"

text \<open>
  \<open>s.trim()\<close> removes the white space and line terminators of the language from both ends.
\<close>

definition isSpace :: "nat \<Rightarrow> bool" where
  "isSpace u =
     (u \<in> {9, 10, 11, 12, 13, 32, 160, 5760, 8232, 8233, 8239, 8287, 12288, 65279} \<or>
      (8192 \<le> u \<and> u \<le> 8202))"

definition trim :: "jstring \<Rightarrow> jstring" where
  "trim s = rev (dropWhile isSpace (rev (dropWhile isSpace s)))"

text \<open>
  \<open>s.toLowerCase()\<close> is a parameter of the functions that call it, of this type: it follows
  the Unicode case mapping, which is not written out here. What is proved of those
  functions holds for every such mapping. \<open>lowerCaseUnits\<close> is the mapping on the Latin
  capitals \<open>A\<close> to \<open>Z\<close> and on \<open>U+0130\<close>, capital I with a dot above, whose lower case is the
  two units \<open>i\<close> and \<open>U+0307\<close>; it leaves every other unit alone, and so agrees with
  \<open>toLowerCase\<close> on the strings made of those capitals and of units without a lower case.
\<close>

type_synonym LowerCase = "jstring \<Rightarrow> jstring"

definition lowerCaseUnit :: "nat \<Rightarrow> jstring" where
  "lowerCaseUnit u =
     (if 65 \<le> u \<and> u \<le> 90 then [u + 32]
      else if u = 304 then [105, 775]
      else [u])"

definition lowerCaseUnits :: LowerCase where
  "lowerCaseUnits s = concat (map lowerCaseUnit s)"

text \<open>
  A JavaScript \<open>Set\<close> of strings keeps insertion order: it is a list without
  repetitions, and \<open>add\<close> appends a value that is not yet a member.
\<close>

definition set_add :: "jstring list \<Rightarrow> jstring \<Rightarrow> jstring list" where
  "set_add s x = (if x \<in> set s then s else s @ [x])"


section \<open>Data model (types.ts)\<close>

record TranscriptSegment =
  timestamp :: jstring
  speaker :: jstring
  text_of :: jstring
  tone :: jstring
  intent :: jstring

text \<open>
  The \<open>title\<close>, \<open>speakerName\<close>, \<open>category\<close> object that callers pass is the first three
  fields of \<open>VideoMetadata\<close>.
\<close>

record UserMetadata =
  title :: jstring
  speakerName :: jstring
  category :: jstring

record VideoMetadata = UserMetadata +
  language :: jstring
  tags :: "jstring list"
  summary :: jstring

record TrainingData =
  metadata :: VideoMetadata
  transcript :: "TranscriptSegment list"

datatype error =
    NoChunksToMerge
  | ApiKeyNotSet
  | FailedToLoadVideoMetadata
  | FailedToLoadVideo
  | ReaderError
  | ServiceError
  | CallbackError


section \<open>Transcript merger (utils/transcriptMerger.ts)\<close>

definition adjustTimestamp :: "jstring \<Rightarrow> real \<Rightarrow> jstring" where
  "adjustTimestamp ts offsetSeconds =
     (let fields = map Number (split_js 58 ts);
          minutes = to_number (at_js fields 0);
          seconds = to_number (at_js fields 1);
          totalSeconds = num_add (num_add (num_mul minutes (Num 60)) seconds) (Num offsetSeconds);
          newMinutes = Math_floor (num_div totalSeconds 60);
          newSeconds = Math_floor (num_rem totalSeconds 60)
      in padStart 2 48 (String_js newMinutes) @ js '':'' @
         padStart 2 48 (String_js newSeconds))"

definition mergeTags :: "LowerCase \<Rightarrow> jstring list list \<Rightarrow> jstring list" where
  "mergeTags toLowerCase tagArrays =
     take 15 (foldl (\<lambda>tagSet ts. foldl (\<lambda>s tag. set_add s (toLowerCase tag)) tagSet ts)
                [] tagArrays)"

definition mergeSummaries :: "jstring list \<Rightarrow> jstring" where
  "mergeSummaries summaries = join_js (js '' '') (foldl set_add [] summaries)"

definition mergeLanguages :: "jstring list \<Rightarrow> jstring" where
  "mergeLanguages languages =
     join_js (js '', '')
       (foldl (\<lambda>languageSet lang.
                 foldl (\<lambda>s l. set_add s (trim l)) languageSet (split_js 44 lang))
          [] languages)"

text \<open>
  The \<open>forEach\<close> over the chunks: the state is the merged transcript so far and the
  cumulative time; \<open>chunkIndex\<close> counts the chunks already seen.
\<close>

fun merge_loop ::
  "TrainingData list \<Rightarrow> real list \<Rightarrow> nat \<Rightarrow> TranscriptSegment list \<times> real
   \<Rightarrow> TranscriptSegment list \<times> real" where
  "merge_loop [] chunkDurations chunkIndex st = st"
| "merge_loop (chunk # rest) chunkDurations chunkIndex (mergedTranscript, cumulativeTime) =
     merge_loop rest chunkDurations (chunkIndex + 1)
       (foldl (\<lambda>merged segment.
                 merged @ [segment\<lparr>timestamp := adjustTimestamp (timestamp segment) cumulativeTime\<rparr>])
          mergedTranscript (transcript chunk),
        if chunkIndex < length chunkDurations
        then cumulativeTime + chunkDurations ! chunkIndex else cumulativeTime)"

definition mergeTranscripts ::
  "LowerCase \<Rightarrow> TrainingData list \<Rightarrow> real list \<Rightarrow> error + TrainingData" where
  "mergeTranscripts toLowerCase chunks chunkDurations =
     (case chunks of
        [] \<Rightarrow> Inl NoChunksToMerge
      | first # _ \<Rightarrow>
          (let baseMetadata = metadata first;
               mergedTranscript = fst (merge_loop chunks chunkDurations 0 ([], 0));
               mergedMetadata = baseMetadata
                 \<lparr>tags := mergeTags toLowerCase (map (\<lambda>c. tags (metadata c)) chunks),
                  summary := mergeSummaries (map (\<lambda>c. summary (metadata c)) chunks),
                  language := mergeLanguages (map (\<lambda>c. language (metadata c)) chunks)\<rparr>
           in Inr \<lparr>metadata = mergedMetadata, transcript = mergedTranscript\<rparr>))"

text \<open>
  One step of the \<open>forEach\<close> in \<open>removeBoundaryDuplicates\<close>, at position \<open>index\<close> of
  the input; the state is the cleaned list and the set of keys seen.
\<close>

definition dedup_key :: "LowerCase \<Rightarrow> TranscriptSegment \<Rightarrow> jstring" where
  "dedup_key toLowerCase segment =
     timestamp segment @ js ''-'' @ toLowerCase (take 20 (text_of segment))"

definition dedup_step ::
  "LowerCase \<Rightarrow> TranscriptSegment list \<Rightarrow> TranscriptSegment list \<times> jstring set \<Rightarrow> nat
   \<Rightarrow> TranscriptSegment list \<times> jstring set" where
  "dedup_step toLowerCase tr st index =
     (let cleaned = fst st; seen = snd st;
          segment = tr ! index;
          key = dedup_key toLowerCase segment
      in if key \<notin> seen then (cleaned @ [segment], insert key seen)
         else if index > 0 then
           (let prevSegment = tr ! (index - 1)
            in if timestamp prevSegment = timestamp segment \<and>
                  toLowerCase (text_of prevSegment) = toLowerCase (text_of segment)
               then (cleaned, seen)
               else (cleaned @ [segment], seen))
         else (cleaned, seen))"

definition removeBoundaryDuplicates ::
  "LowerCase \<Rightarrow> TranscriptSegment list \<Rightarrow> TranscriptSegment list" where
  "removeBoundaryDuplicates toLowerCase tr =
     fst (foldl (dedup_step toLowerCase tr) ([], {}) [0..<length tr])"


section \<open>Video chunker (utils/videoChunker.ts)\<close>

text \<open>
  A \<open>File\<close> carries its size in bytes and its MIME type. What the browser reports about
  it is part of the input: the duration the video element gives once its metadata has
  loaded (none when loading the metadata fails), whether the video data loads, and the data
  URL that a \<open>FileReader\<close> produces (none when the reader fails).
\<close>

record File =
  file_size :: nat
  file_type :: jstring
  video_duration :: "real option"
  video_loads :: bool
  data_url :: "jstring option"

record VideoChunk =
  blob :: File
  startTime :: real
  endTime :: real
  index :: nat
  duration :: real

record ChunkingProgress =
  currentChunk :: nat
  totalChunks :: nat
  progress :: real
  status :: jstring

text \<open>
  A callback of the caller either returns or throws; what else it does is not observed
  by the pipeline. An absent callback is not called.
\<close>

datatype outcome = Returns | Throws

definition notify :: "('a \<Rightarrow> outcome) option \<Rightarrow> 'a \<Rightarrow> outcome" where
  "notify callback x = (case callback of None \<Rightarrow> Returns | Some f \<Rightarrow> f x)"

definition getVideoDuration :: "File \<Rightarrow> error + real" where
  "getVideoDuration file =
     (case video_duration file of
        None \<Rightarrow> Inl FailedToLoadVideoMetadata
      | Some d \<Rightarrow> Inr d)"

text \<open>
  The \<open>for\<close> loop of \<open>splitVideoIntoChunks\<close>, inside its \<open>try\<close>: a throw of the progress
  callback rejects the promise.
\<close>

function chunk_loop ::
  "File \<Rightarrow> (ChunkingProgress \<Rightarrow> outcome) option \<Rightarrow> real \<Rightarrow> real \<Rightarrow> int \<Rightarrow> nat
   \<Rightarrow> VideoChunk list \<Rightarrow> error + VideoChunk list" where
  "chunk_loop file onProgress chunkDurationSeconds dur chunkCount i chunks =
     (if int i < chunkCount then
        (let chunkStart = real i * chunkDurationSeconds;
             chunkEnd = min (real (i + 1) * chunkDurationSeconds) dur
         in case notify onProgress
                   \<lparr>currentChunk = i + 1, totalChunks = nat chunkCount,
                    progress = (real (i + 1) / real_of_int chunkCount) * 100,
                    status = js ''Creating chunk '' @ decimal (i + 1) @ js '' of '' @
                             decimal (nat chunkCount) @ js ''...''\<rparr> of
              Throws \<Rightarrow> Inl CallbackError
            | Returns \<Rightarrow>
                (let chunk = \<lparr>blob = file, startTime = chunkStart, endTime = chunkEnd,
                               index = i, duration = chunkEnd - chunkStart\<rparr>
                 in chunk_loop file onProgress chunkDurationSeconds dur chunkCount (i + 1)
                      (chunks @ [chunk])))
      else Inr chunks)"
  by pat_completeness auto
termination
  by (relation "measure (\<lambda>(file, cb, cs, dur, chunkCount, i, chunks). nat (chunkCount - int i))") auto

declare chunk_loop.simps [simp del]

text \<open>
  The result is \<open>None\<close> when the promise never settles: with a chunk length of zero and a
  positive duration the chunk count is infinite and the loop does not end (a progress
  callback that throws in the course of it is not modelled). With a chunk length of zero
  and a duration of zero the count is \<open>NaN\<close> and the loop body never runs.
\<close>

definition splitVideoIntoChunks ::
  "File \<Rightarrow> real \<Rightarrow> (ChunkingProgress \<Rightarrow> outcome) option
   \<Rightarrow> (error + VideoChunk list) option" where
  "splitVideoIntoChunks file chunkDurationMinutes onProgress =
     (case getVideoDuration file of
        Inl e \<Rightarrow> Some (Inl e)
      | Inr dur \<Rightarrow>
          (let chunkDurationSeconds = chunkDurationMinutes * 60
           in if \<not> video_loads file then Some (Inl FailedToLoadVideo)
              else if chunkDurationSeconds = 0
                then (if 0 < dur then None else Some (Inr []))
              else Some (chunk_loop file onProgress chunkDurationSeconds dur
                           \<lceil>dur / chunkDurationSeconds\<rceil> 0 [])))"

definition base64_of_data_url :: "jstring \<Rightarrow> jstring option" where
  "base64_of_data_url result = at_js (split_js 44 result) 1"

definition chunkToBase64 :: "VideoChunk \<Rightarrow> error + jstring option" where
  "chunkToBase64 chunk =
     (case data_url (blob chunk) of
        None \<Rightarrow> Inl ReaderError
      | Some result \<Rightarrow> Inr (base64_of_data_url result))"

definition shouldChunkVideo :: "File \<Rightarrow> real \<Rightarrow> real \<Rightarrow> bool" where
  "shouldChunkVideo file maxSizeMB maxDurationMinutes =
     (let sizeMB = real (file_size file) / (1024 * 1024)
      in if sizeMB > maxSizeMB then True
         else (case getVideoDuration file of
                 Inr dur \<Rightarrow> (let durationMinutes = dur / 60 in durationMinutes > maxDurationMinutes)
               | Inl _ \<Rightarrow> sizeMB > 50))"


section \<open>Inference adapter (services/geminiService.ts)\<close>

text \<open>
  The environment holds the two variables the adapter reads. The remote call together with
  the parsing of its answer is a parameter: given the key, the payload, the MIME type and the
  context that the prompt is built from, it returns a result or fails.
\<close>

record Env =
  API_KEY :: "jstring option"
  GEMINI_API_KEY :: "jstring option"

type_synonym Service =
  "jstring \<Rightarrow> jstring option \<Rightarrow> jstring \<Rightarrow> UserMetadata \<Rightarrow> error + TrainingData"

text \<open>\<open>a || b\<close> on optional strings: \<open>undefined\<close> and the empty string are falsy.\<close>

definition or_js :: "jstring option \<Rightarrow> jstring option \<Rightarrow> jstring option" where
  "or_js a b = (case a of None \<Rightarrow> b | Some s \<Rightarrow> if s = [] then b else Some s)"

definition processVideoWithGemini ::
  "Env \<Rightarrow> Service \<Rightarrow> jstring option \<Rightarrow> jstring \<Rightarrow> UserMetadata \<Rightarrow> error + TrainingData" where
  "processVideoWithGemini env service base64Video mimeType userMetadata =
     (case or_js (API_KEY env) (GEMINI_API_KEY env) of
        None \<Rightarrow> Inl ApiKeyNotSet
      | Some apiKey \<Rightarrow>
          if apiKey = [] \<or> apiKey = js ''undefined'' then Inl ApiKeyNotSet
          else service apiKey base64Video mimeType userMetadata)"


section \<open>Chunked processing\<close>

record ChunkedProcessingOptions =
  chunkDurationMinutes :: "real option"
  onChunkProgress :: "(ChunkingProgress \<Rightarrow> outcome) option"
  onChunkComplete :: "(nat \<times> nat \<Rightarrow> outcome) option"

text \<open>
  The body of the \<open>try\<close> block for chunk \<open>i\<close> (0-based) of \<open>n\<close>, up to the call of the
  adapter.
\<close>

definition process_chunk ::
  "Env \<Rightarrow> Service \<Rightarrow> File \<Rightarrow> UserMetadata \<Rightarrow> nat \<Rightarrow> nat \<Rightarrow> VideoChunk
   \<Rightarrow> error + TrainingData" where
  "process_chunk env service file userMetadata n i chunk =
     (case chunkToBase64 chunk of
        Inl e \<Rightarrow> Inl e
      | Inr base64 \<Rightarrow>
          (let chunkMetadata = userMetadata
                 \<lparr>title := title userMetadata @ js '' (Segment '' @ decimal (i + 1) @ js ''/'' @
                            decimal n @ js '')''\<rparr>
           in processVideoWithGemini env service base64 (file_type file) chunkMetadata))"

text \<open>The result pushed in the \<open>catch\<close> block.\<close>

definition failed_chunk :: "UserMetadata \<Rightarrow> nat \<Rightarrow> TrainingData" where
  "failed_chunk userMetadata i =
     \<lparr>metadata =
        \<lparr>title = title userMetadata,
         speakerName = speakerName userMetadata,
         category = category userMetadata,
         language = js ''Unknown'',
         tags = [],
         summary = js ''Chunk '' @ decimal (i + 1) @ js '' processing failed''\<rparr>,
      transcript = []\<rparr>"

text \<open>
  The dispatch loop; the state is \<open>chunkResults\<close> and \<open>chunkDurations\<close>. The progress callback
  is called before the \<open>try\<close>, so a throw of it ends the whole call. The completion
  callback is called inside the \<open>try\<close>, after the result and the duration of the chunk
  have been pushed, so a throw of it reaches the \<open>catch\<close>, which pushes the placeholder
  and the duration once more. The pause between calls is left out.
\<close>

function dispatch_loop ::
  "Env \<Rightarrow> Service \<Rightarrow> ChunkedProcessingOptions \<Rightarrow> File \<Rightarrow> UserMetadata \<Rightarrow> VideoChunk list
   \<Rightarrow> nat \<Rightarrow> TrainingData list \<times> real list \<Rightarrow> error + TrainingData list \<times> real list" where
  "dispatch_loop env service options file userMetadata chunks i (chunkResults, chunkDurations) =
     (if i < length chunks then
        (let chunk = chunks ! i
         in case notify (onChunkProgress options)
                   \<lparr>currentChunk = i + 1, totalChunks = length chunks,
                    progress = (real (i + 1) / real (length chunks)) * 100,
                    status = js ''Processing chunk '' @ decimal (i + 1) @ js '' of '' @
                             decimal (length chunks) @ js ''...''\<rparr> of
              Throws \<Rightarrow> Inl CallbackError
            | Returns \<Rightarrow>
                (case process_chunk env service file userMetadata (length chunks) i chunk of
                   Inr result \<Rightarrow>
                     (case notify (onChunkComplete options) (i + 1, length chunks) of
                        Returns \<Rightarrow>
                          dispatch_loop env service options file userMetadata chunks (i + 1)
                            (chunkResults @ [result], chunkDurations @ [duration chunk])
                      | Throws \<Rightarrow>
                          dispatch_loop env service options file userMetadata chunks (i + 1)
                            (chunkResults @ [result] @ [failed_chunk userMetadata i],
                             chunkDurations @ [duration chunk] @ [duration chunk]))
                 | Inl e \<Rightarrow>
                     dispatch_loop env service options file userMetadata chunks (i + 1)
                       (chunkResults @ [failed_chunk userMetadata i],
                        chunkDurations @ [duration chunk])))
      else Inr (chunkResults, chunkDurations))"
  by pat_completeness auto
termination
  by (relation "measure (\<lambda>(env, service, options, file, userMetadata, chunks, i, st).
                           length chunks - i)")
     auto

declare dispatch_loop.simps [simp del]

text \<open>
  \<open>processVideoWithChunking\<close>; the chunk length is 15 minutes when the option is absent.
  \<open>None\<close> as the result means the call never settles.
\<close>

definition processVideoWithChunking ::
  "Env \<Rightarrow> Service \<Rightarrow> LowerCase \<Rightarrow> File \<Rightarrow> UserMetadata \<Rightarrow> ChunkedProcessingOptions
   \<Rightarrow> (error + TrainingData) option" where
  "processVideoWithChunking env service toLowerCase file userMetadata options =
     (let minutes = (case chunkDurationMinutes options of None \<Rightarrow> 15 | Some m \<Rightarrow> m);
          needsChunking = shouldChunkVideo file 100 60
      in if \<not> needsChunking then
           (case data_url file of
              None \<Rightarrow> Some (Inl ReaderError)
            | Some result \<Rightarrow>
                Some (processVideoWithGemini env service (base64_of_data_url result)
                        (file_type file) userMetadata))
         else if notify (onChunkProgress options)
                   \<lparr>currentChunk = 0, totalChunks = 0, progress = 0,
                    status = js ''Preparing video chunks...''\<rparr> = Throws
           then Some (Inl CallbackError)
         else
           (case splitVideoIntoChunks file minutes (onChunkProgress options) of
              None \<Rightarrow> None
            | Some (Inl e) \<Rightarrow> Some (Inl e)
            | Some (Inr chunks) \<Rightarrow>
                (case dispatch_loop env service options file userMetadata chunks 0 ([], []) of
                   Inl e \<Rightarrow> Some (Inl e)
                 | Inr (chunkResults, chunkDurations) \<Rightarrow>
                     if notify (onChunkProgress options)
                          \<lparr>currentChunk = length chunks, totalChunks = length chunks,
                           progress = 100, status = js ''Merging transcripts...''\<rparr> = Throws
                     then Some (Inl CallbackError)
                     else
                       (case mergeTranscripts toLowerCase chunkResults chunkDurations of
                          Inl e \<Rightarrow> Some (Inl e)
                        | Inr merged \<Rightarrow>
                            Some (Inr (merged\<lparr>transcript :=
                                         removeBoundaryDuplicates toLowerCase
                                           (transcript merged)\<rparr>))))))"


section \<open>Notions used to state the properties\<close>

text \<open>
  A well-formed timestamp is \<open>MM:SS\<close>: two fields of decimal digits separated by one colon,
  the seconds of exactly two digits and below 60, the minutes of at least two digits, with
  no zero in front of minutes that need more than two digits.
\<close>

definition wellFormedTimestamp :: "jstring \<Rightarrow> bool" where
  "wellFormedTimestamp ts =
     (case split_js 58 ts of
        [mm, ss] \<Rightarrow>
          list_all isDigit mm \<and> list_all isDigit ss \<and> length ss = 2 \<and> decimalValue ss < 60 \<and>
          2 \<le> length mm \<and> (length mm = 2 \<or> hd mm \<noteq> 48)
      | _ \<Rightarrow> False)"

text \<open>The number of seconds that a timestamp of two digit fields stands for.\<close>

definition timestampSeconds :: "jstring \<Rightarrow> nat" where
  "timestampSeconds ts =
     (case split_js 58 ts of
        [mm, ss] \<Rightarrow> 60 * decimalValue mm + decimalValue ss
      | _ \<Rightarrow> 0)"

text \<open>The timestamp that stands for a number of seconds: minutes are not wrapped into hours.\<close>

definition formatTimestamp :: "nat \<Rightarrow> jstring" where
  "formatTimestamp totalSeconds =
     padStart 2 48 (decimal (totalSeconds div 60)) @ js '':'' @
     padStart 2 48 (decimal (totalSeconds mod 60))"



text \<open>
  The boundary deduplicator as the specification words it: a fingerprint is the pair of the
  timestamp and the lower-cased first 20 units of the text; an exact adjacent repeat has
  the timestamp of the entry before it and, up to case, its whole text.
\<close>

definition fingerprint :: "LowerCase \<Rightarrow> TranscriptSegment \<Rightarrow> jstring \<times> jstring" where
  "fingerprint lc e = (timestamp e, lc (take 20 (text_of e)))"

definition adjacentRepeat :: "LowerCase \<Rightarrow> TranscriptSegment \<Rightarrow> TranscriptSegment \<Rightarrow> bool" where
  "adjacentRepeat lc p e =
     (timestamp p = timestamp e \<and> lc (text_of p) = lc (text_of e))"

fun dedupe_spec ::
  "LowerCase \<Rightarrow> TranscriptSegment option \<Rightarrow> (jstring \<times> jstring) set \<Rightarrow> TranscriptSegment list
   \<Rightarrow> TranscriptSegment list" where
  "dedupe_spec lc prev seen [] = []"
| "dedupe_spec lc prev seen (e # es) =
     (if fingerprint lc e \<notin> seen
        then e # dedupe_spec lc (Some e) (insert (fingerprint lc e) seen) es
      else if (case prev of None \<Rightarrow> False | Some p \<Rightarrow> adjacentRepeat lc p e)
        then dedupe_spec lc (Some e) seen es
      else e # dedupe_spec lc (Some e) seen es)"

text \<open>
  The same pass over a set of keys of any kind: \<open>key\<close> gives the key of an entry.
\<close>

fun dedupe_pass ::
  "LowerCase \<Rightarrow> (TranscriptSegment \<Rightarrow> 'k) \<Rightarrow> TranscriptSegment option \<Rightarrow> 'k set
   \<Rightarrow> TranscriptSegment list \<Rightarrow> TranscriptSegment list" where
  "dedupe_pass lc key prev seen [] = []"
| "dedupe_pass lc key prev seen (e # es) =
     (if key e \<notin> seen then e # dedupe_pass lc key (Some e) (insert (key e) seen) es
      else if (case prev of None \<Rightarrow> False | Some p \<Rightarrow> adjacentRepeat lc p e)
        then dedupe_pass lc key (Some e) seen es
      else e # dedupe_pass lc key (Some e) seen es)"

text \<open>The credential is missing: neither variable holds a usable key.\<close>

definition credentialMissing :: "Env \<Rightarrow> bool" where
  "credentialMissing env =
     (case or_js (API_KEY env) (GEMINI_API_KEY env) of
        None \<Rightarrow> True
      | Some k \<Rightarrow> k = [] \<or> k = js ''undefined'')"

definition sizeMB :: "File \<Rightarrow> real" where
  "sizeMB file = real (file_size file) / (1024 * 1024)"


section \<open>The empty-input error of the merger\<close>

text \<open>
  C8. \<open>mergeTranscripts\<close> fails exactly when it is given no results, and the failure is
  the empty-input error; on every non-empty list it returns a result.
\<close>

theorem mergeTranscripts_fails_iff_empty:
  "(\<exists>e. mergeTranscripts toLowerCase chunks chunkDurations = Inl e) = (chunks = []) \<and>
   (mergeTranscripts toLowerCase [] chunkDurations = Inl NoChunksToMerge) \<and>
   (\<exists>r. mergeTranscripts toLowerCase (c # cs) chunkDurations = Inr r)"
  by (simp add: mergeTranscripts_def Let_def split: list.split)

section \<open>Boundary deduplicator\<close>

lemma dedupe_pass_snoc:
  "dedupe_pass lc key prev seen (es @ [e]) =
   dedupe_pass lc key prev seen es @
   (if (key e \<notin> seen \<and> key e \<notin> key ` set es) \<or>
       \<not> (case (if es = [] then prev else Some (last es)) of
              None \<Rightarrow> False | Some p \<Rightarrow> adjacentRepeat lc p e)
    then [e] else [])"
proof (induction es arbitrary: prev seen)
  case Nil
  show ?case by simp
next
  case (Cons x xs)
  show ?case
  proof (cases "key x \<in> seen")
    case False
    then show ?thesis by (auto simp: Cons.IH)
  next
    case True
    then show ?thesis by (auto simp: Cons.IH)
  qed
qed

text \<open>
  The state of the loop after \<open>k\<close> entries: the entries kept by the pass over the first \<open>k\<close>
  entries, and the keys of all of them.
\<close>

lemma dedup_fold:
  "k \<le> length tr \<Longrightarrow>
   foldl (dedup_step lc tr) ([], {}) [0..<k] =
   (dedupe_pass lc (dedup_key lc) None {} (take k tr), dedup_key lc ` set (take k tr))"
proof (induction k)
  case 0
  show ?case by simp
next
  case (Suc k)
  then have k: "k < length tr" by simp
  let ?cleaned = "dedupe_pass lc (dedup_key lc) None {} (take k tr)"
  let ?seen = "dedup_key lc ` set (take k tr)"
  have st: "foldl (dedup_step lc tr) ([], {}) [0..<k] = (?cleaned, ?seen)"
    using Suc by simp
  have tk: "take (Suc k) tr = take k tr @ [tr ! k]"
    using k by (simp add: take_Suc_conv_app_nth)
  have seen': "dedup_key lc ` set (take (Suc k) tr) = insert (dedup_key lc (tr ! k)) ?seen"
    by (simp add: tk)
  have pred: "0 < k \<Longrightarrow> last (take k tr) = tr ! (k - 1)"
  proof -
    assume pos: "0 < k"
    with k have ne: "take k tr \<noteq> []" by auto
    have len: "length (take k tr) = k" using k by simp
    have "last (take k tr) = take k tr ! (k - 1)"
      using ne len by (simp add: last_conv_nth)
    also have "\<dots> = tr ! (k - 1)"
      using pos by simp
    finally show ?thesis .
  qed
  have e: "(take k tr = []) = (k = 0)" using k by auto
  have cl: "dedupe_pass lc (dedup_key lc) None {} (take (Suc k) tr) =
            ?cleaned @
            (if dedup_key lc (tr ! k) \<notin> ?seen \<or>
                \<not> (0 < k \<and> adjacentRepeat lc (tr ! (k - 1)) (tr ! k))
             then [tr ! k] else [])"
    unfolding tk dedupe_pass_snoc e using pred by (cases "k = 0") simp_all
  have "dedup_step lc tr (?cleaned, ?seen) k =
        (dedupe_pass lc (dedup_key lc) None {} (take (Suc k) tr),
         dedup_key lc ` set (take (Suc k) tr))"
  proof (cases "dedup_key lc (tr ! k) \<in> ?seen")
    case False
    then show ?thesis
      by (simp add: dedup_step_def Let_def cl seen')
  next
    case True
    then have "0 < k" by (cases k) auto
    with True show ?thesis
      by (auto simp: dedup_step_def Let_def cl seen' adjacentRepeat_def insert_absorb)
  qed
  then show ?case by (simp add: st)
qed

lemma removeBoundaryDuplicates_pass:
  "removeBoundaryDuplicates lc tr = dedupe_pass lc (dedup_key lc) None {} tr"
  by (simp add: removeBoundaryDuplicates_def dedup_fold)

lemma removeBoundaryDuplicates_seen:
  "snd (foldl (dedup_step lc tr) ([], {}) [0..<length tr]) = dedup_key lc ` set tr"
  by (simp add: dedup_fold)

lemma dedupe_pass_index:
  "dedupe_pass lc key None {} tr =
   map (\<lambda>i. tr ! i)
     (filter (\<lambda>i. key (tr ! i) \<notin> key ` set (take i tr) \<or>
                   \<not> (0 < i \<and> adjacentRepeat lc (tr ! (i - 1)) (tr ! i)))
        [0..<length tr])"
proof (induction tr rule: rev_induct)
  case Nil
  show ?case by simp
next
  case (snoc x xs)
  let ?n = "length xs"
  let ?P = "\<lambda>ys i. key (ys ! i) \<notin> key ` set (take i ys) \<or>
                   \<not> (0 < i \<and> adjacentRepeat lc (ys ! (i - 1)) (ys ! i))"
  have f: "filter (?P (xs @ [x])) [0..<?n] = filter (?P xs) [0..<?n]"
    by (rule filter_cong) (auto simp: nth_append)
  have m: "map (\<lambda>i. (xs @ [x]) ! i) (filter (?P xs) [0..<?n]) =
           map (\<lambda>i. xs ! i) (filter (?P xs) [0..<?n])"
    by (rule map_cong) (auto simp: nth_append)
  have last_step: "map (\<lambda>i. (xs @ [x]) ! i) (filter (?P (xs @ [x])) [?n]) =
     (if (key x \<notin> {} \<and> key x \<notin> key ` set xs) \<or>
         \<not> (case (if xs = [] then None else Some (last xs)) of
                None \<Rightarrow> False | Some p \<Rightarrow> adjacentRepeat lc p x)
      then [x] else [])"
  proof (cases "xs = []")
    case True
    then show ?thesis by simp
  next
    case False
    then have "(xs @ [x]) ! (?n - 1) = last xs"
      by (simp add: nth_append last_conv_nth)
    with False show ?thesis by simp
  qed
  have "map (\<lambda>i. (xs @ [x]) ! i) (filter (?P (xs @ [x])) [0..<length (xs @ [x])]) =
        map (\<lambda>i. (xs @ [x]) ! i) (filter (?P (xs @ [x])) [0..<?n]) @
        map (\<lambda>i. (xs @ [x]) ! i) (filter (?P (xs @ [x])) [?n])"
    by simp
  also have "\<dots> = map (\<lambda>i. xs ! i) (filter (?P xs) [0..<?n]) @
     (if (key x \<notin> {} \<and> key x \<notin> key ` set xs) \<or>
         \<not> (case (if xs = [] then None else Some (last xs)) of
                None \<Rightarrow> False | Some p \<Rightarrow> adjacentRepeat lc p x)
      then [x] else [])"
    by (simp only: f m last_step)
  also have "\<dots> = dedupe_pass lc key None {} (xs @ [x])"
    by (simp only: dedupe_pass_snoc snoc.IH)
  finally show ?case by (rule sym)
qed

lemma dedupe_spec_pass: "dedupe_spec lc prev seen es = dedupe_pass lc (fingerprint lc) prev seen es"
  by (induction es arbitrary: prev seen) simp_all

lemma dedupe_pass_keys:
  assumes "\<And>a b. a \<in> A \<union> set es \<Longrightarrow> b \<in> A \<union> set es \<Longrightarrow> (k1 a = k1 b) = (k2 a = k2 b)"
  shows "dedupe_pass lc k1 prev (k1 ` A) es = dedupe_pass lc k2 prev (k2 ` A) es"
  using assms
proof (induction es arbitrary: prev A)
  case Nil
  show ?case by simp
next
  case (Cons e es)
  have mem: "(k1 e \<in> k1 ` A) = (k2 e \<in> k2 ` A)"
  proof
    assume "k1 e \<in> k1 ` A"
    then obtain a where a: "a \<in> A" and "k1 e = k1 a" by blast
    then have "k2 e = k2 a" using Cons.prems [of e a] by simp
    with a show "k2 e \<in> k2 ` A" by blast
  next
    assume "k2 e \<in> k2 ` A"
    then obtain a where a: "a \<in> A" and "k2 e = k2 a" by blast
    then have "k1 e = k1 a" using Cons.prems [of e a] by simp
    with a show "k1 e \<in> k1 ` A" by blast
  qed
  have same: "dedupe_pass lc k1 (Some e) (k1 ` A) es = dedupe_pass lc k2 (Some e) (k2 ` A) es"
    by (rule Cons.IH) (use Cons.prems in auto)
  have grown: "dedupe_pass lc k1 (Some e) (k1 ` insert e A) es =
               dedupe_pass lc k2 (Some e) (k2 ` insert e A) es"
    by (rule Cons.IH) (use Cons.prems in auto)
  show ?case
    using mem same grown by simp
qed

lemma key_pair:
  assumes "45 \<notin> set s" and "45 \<notin> set t"
  shows "(s @ js ''-'' @ p = t @ js ''-'' @ q) = (s = t \<and> p = q)"
  using assms
proof (induction s arbitrary: t)
  case Nil
  then show ?case by (cases t) (auto simp: js_def)
next
  case (Cons x s)
  then show ?case by (cases t) (auto simp: js_def)
qed

lemma dedup_key_fingerprint:
  "45 \<notin> set (timestamp a) \<Longrightarrow> 45 \<notin> set (timestamp b) \<Longrightarrow>
   (dedup_key lc a = dedup_key lc b) = (fingerprint lc a = fingerprint lc b)"
  by (simp add: dedup_key_def fingerprint_def key_pair)

lemma dedupe_pass_subseq: "subseq (dedupe_pass lc key prev seen es) es"
  by (induction es arbitrary: prev seen) auto

lemma dedupe_pass_twice:
  assumes "seen' \<subseteq> seen"
    and "p' = None \<or> (\<exists>a b. p' = Some a \<and> p = Some b \<and>
           timestamp a = timestamp b \<and> lc (text_of a) = lc (text_of b))"
  shows "dedupe_pass lc key p' seen' (dedupe_pass lc key p seen es) = dedupe_pass lc key p seen es"
  using assms
proof (induction es arbitrary: p p' seen seen')
  case Nil
  show ?case by simp
next
  case (Cons e es)
  show ?case
  proof (cases "key e \<in> seen")
    case False
    with Cons.prems(1) have n': "key e \<notin> seen'" by auto
    have "dedupe_pass lc key (Some e) (insert (key e) seen')
            (dedupe_pass lc key (Some e) (insert (key e) seen) es) =
          dedupe_pass lc key (Some e) (insert (key e) seen) es"
      by (rule Cons.IH) (use Cons.prems(1) in auto)
    with False n' show ?thesis by simp
  next
    case True
    show ?thesis
    proof (cases "case p of None \<Rightarrow> False | Some q \<Rightarrow> adjacentRepeat lc q e")
      case True
      then obtain q where q: "p = Some q" and r: "adjacentRepeat lc q e"
        by (cases p) auto
      have "dedupe_pass lc key p' seen' (dedupe_pass lc key (Some e) seen es) =
            dedupe_pass lc key (Some e) seen es"
      proof (rule Cons.IH [OF Cons.prems(1)])
        show "p' = None \<or> (\<exists>a b. p' = Some a \<and> Some e = Some b \<and>
           timestamp a = timestamp b \<and> lc (text_of a) = lc (text_of b))"
          using Cons.prems(2) q r by (auto simp: adjacentRepeat_def)
      qed
      with \<open>key e \<in> seen\<close> True show ?thesis by simp
    next
      case False
      have keep': "\<not> (case p' of None \<Rightarrow> False | Some q \<Rightarrow> adjacentRepeat lc q e)"
        using Cons.prems(2) False by (auto simp: adjacentRepeat_def)
      have a: "dedupe_pass lc key (Some e) seen'
                 (dedupe_pass lc key (Some e) seen es) = dedupe_pass lc key (Some e) seen es"
        by (rule Cons.IH [OF Cons.prems(1)]) simp
      have b: "dedupe_pass lc key (Some e) (insert (key e) seen')
                 (dedupe_pass lc key (Some e) seen es) = dedupe_pass lc key (Some e) seen es"
        by (rule Cons.IH) (use Cons.prems(1) \<open>key e \<in> seen\<close> in auto)
      from \<open>key e \<in> seen\<close> False keep' a b show ?thesis by simp
    qed
  qed
qed

text \<open>
  C5, as the code has it. Whatever the lower-casing is, \<open>removeBoundaryDuplicates\<close> makes
  one pass in order. The key of an entry is its timestamp, a hyphen and the lower-cased
  first 20 units of its text, and the keys of all entries end up recorded. The entry at
  position \<open>i\<close> is kept when its key is not among the keys of the entries before it, or when
  it is not an exact repeat of the entry just before it in the input (same timestamp and,
  up to case, the same whole text); it is dropped otherwise. When no timestamp holds a
  hyphen the key stands for the pair of the specification, and the function is the pass
  that the specification words. Two adjacent entries with the same timestamp and the same
  text up to case collapse to the first when the first 20 units of their texts have the
  same lower case; two entries with the same timestamp whose texts differ even up to case
  are both kept.
\<close>

theorem removeBoundaryDuplicates_single_pass:
  "removeBoundaryDuplicates lc tr =
     map (\<lambda>i. tr ! i)
       (filter (\<lambda>i. (timestamp (tr ! i) @ js ''-'' @ lc (take 20 (text_of (tr ! i))))
                       \<notin> (\<lambda>e. timestamp e @ js ''-'' @ lc (take 20 (text_of e))) ` set (take i tr) \<or>
                     \<not> (0 < i \<and> adjacentRepeat lc (tr ! (i - 1)) (tr ! i)))
          [0..<length tr]) \<and>
   snd (foldl (dedup_step lc tr) ([], {}) [0..<length tr]) =
     (\<lambda>e. timestamp e @ js ''-'' @ lc (take 20 (text_of e))) ` set tr \<and>
   ((\<forall>e \<in> set tr. 45 \<notin> set (timestamp e)) \<longrightarrow>
      removeBoundaryDuplicates lc tr = dedupe_spec lc None {} tr) \<and>
   (adjacentRepeat lc a b \<and> lc (take 20 (text_of a)) = lc (take 20 (text_of b)) \<longrightarrow>
      removeBoundaryDuplicates lc [a, b] = [a]) \<and>
   (timestamp c = timestamp d \<and> lc (text_of c) \<noteq> lc (text_of d) \<longrightarrow>
      removeBoundaryDuplicates lc [c, d] = [c, d])"
proof -
  have key: "dedup_key lc = (\<lambda>e. timestamp e @ js ''-'' @ lc (take 20 (text_of e)))"
    by (rule ext) (simp add: dedup_key_def)
  have idx: "removeBoundaryDuplicates lc tr =
     map (\<lambda>i. tr ! i)
       (filter (\<lambda>i. dedup_key lc (tr ! i) \<notin> dedup_key lc ` set (take i tr) \<or>
                     \<not> (0 < i \<and> adjacentRepeat lc (tr ! (i - 1)) (tr ! i)))
          [0..<length tr])"
    unfolding removeBoundaryDuplicates_pass by (rule dedupe_pass_index)
  have seen: "snd (foldl (dedup_step lc tr) ([], {}) [0..<length tr]) = dedup_key lc ` set tr"
    by (rule removeBoundaryDuplicates_seen)
  have spec: "removeBoundaryDuplicates lc tr = dedupe_spec lc None {} tr"
    if "\<forall>e \<in> set tr. 45 \<notin> set (timestamp e)"
  proof -
    have "dedupe_pass lc (dedup_key lc) None (dedup_key lc ` {}) tr =
          dedupe_pass lc (fingerprint lc) None (fingerprint lc ` {}) tr"
      by (rule dedupe_pass_keys) (use that in \<open>auto simp: dedup_key_fingerprint\<close>)
    then show ?thesis
      by (simp add: removeBoundaryDuplicates_pass dedupe_spec_pass)
  qed
  have same: "removeBoundaryDuplicates lc [a, b] = [a]"
    if "adjacentRepeat lc a b" and "lc (take 20 (text_of a)) = lc (take 20 (text_of b))"
    using that by (simp add: removeBoundaryDuplicates_pass dedup_key_def adjacentRepeat_def)
  have diff: "removeBoundaryDuplicates lc [c, d] = [c, d]"
    if "timestamp c = timestamp d" and "lc (text_of c) \<noteq> lc (text_of d)"
    using that by (simp add: removeBoundaryDuplicates_pass adjacentRepeat_def)
  from idx seen spec same diff show ?thesis
    unfolding key by blast
qed

theorem removeBoundaryDuplicates_single_pass_witness:
  "45 \<notin> set (js ''10:00'') \<and>
   removeBoundaryDuplicates lowerCaseUnits
     [\<lparr>timestamp = js ''10:00'', speaker = js ''A'', text_of = js ''Hello there'',
        tone = js ''calm'', intent = js ''greet''\<rparr>,
      \<lparr>timestamp = js ''10:00'', speaker = js ''A'', text_of = js ''HELLO there'',
        tone = js ''warm'', intent = js ''greet''\<rparr>,
      \<lparr>timestamp = js ''10:00'', speaker = js ''B'', text_of = js ''Hello again'',
        tone = js ''calm'', intent = js ''greet''\<rparr>] =
   dedupe_spec lowerCaseUnits None {}
     [\<lparr>timestamp = js ''10:00'', speaker = js ''A'', text_of = js ''Hello there'',
        tone = js ''calm'', intent = js ''greet''\<rparr>,
      \<lparr>timestamp = js ''10:00'', speaker = js ''A'', text_of = js ''HELLO there'',
        tone = js ''warm'', intent = js ''greet''\<rparr>,
      \<lparr>timestamp = js ''10:00'', speaker = js ''B'', text_of = js ''Hello again'',
        tone = js ''calm'', intent = js ''greet''\<rparr>] \<and>
   removeBoundaryDuplicates lowerCaseUnits
     [\<lparr>timestamp = js ''10:00'', speaker = js ''A'', text_of = js ''Hello there'',
        tone = js ''calm'', intent = js ''greet''\<rparr>,
      \<lparr>timestamp = js ''10:00'', speaker = js ''A'', text_of = js ''HELLO there'',
        tone = js ''warm'', intent = js ''greet''\<rparr>,
      \<lparr>timestamp = js ''10:00'', speaker = js ''B'', text_of = js ''Hello again'',
        tone = js ''calm'', intent = js ''greet''\<rparr>] =
     [\<lparr>timestamp = js ''10:00'', speaker = js ''A'', text_of = js ''Hello there'',
        tone = js ''calm'', intent = js ''greet''\<rparr>,
      \<lparr>timestamp = js ''10:00'', speaker = js ''B'', text_of = js ''Hello again'',
        tone = js ''calm'', intent = js ''greet''\<rparr>] \<and>
   adjacentRepeat lowerCaseUnits
     \<lparr>timestamp = js ''10:00'', speaker = js ''A'', text_of = js ''Hello there'',
        tone = js ''calm'', intent = js ''greet''\<rparr>
     \<lparr>timestamp = js ''10:00'', speaker = js ''A'', text_of = js ''HELLO there'',
        tone = js ''warm'', intent = js ''greet''\<rparr> \<and>
   removeBoundaryDuplicates lowerCaseUnits
     [\<lparr>timestamp = js ''10:00'', speaker = js ''A'', text_of = js ''Hello there'',
        tone = js ''calm'', intent = js ''greet''\<rparr>,
      \<lparr>timestamp = js ''10:00'', speaker = js ''A'', text_of = js ''HELLO there'',
        tone = js ''warm'', intent = js ''greet''\<rparr>] =
     [\<lparr>timestamp = js ''10:00'', speaker = js ''A'', text_of = js ''Hello there'',
        tone = js ''calm'', intent = js ''greet''\<rparr>] \<and>
   lowerCaseUnits (js ''Hello there'') \<noteq> lowerCaseUnits (js ''Hello again'') \<and>
   removeBoundaryDuplicates lowerCaseUnits
     [\<lparr>timestamp = js ''10:00'', speaker = js ''A'', text_of = js ''Hello there'',
        tone = js ''calm'', intent = js ''greet''\<rparr>,
      \<lparr>timestamp = js ''10:00'', speaker = js ''B'', text_of = js ''Hello again'',
        tone = js ''calm'', intent = js ''greet''\<rparr>] =
     [\<lparr>timestamp = js ''10:00'', speaker = js ''A'', text_of = js ''Hello there'',
        tone = js ''calm'', intent = js ''greet''\<rparr>,
      \<lparr>timestamp = js ''10:00'', speaker = js ''B'', text_of = js ''Hello again'',
        tone = js ''calm'', intent = js ''greet''\<rparr>]"
proof -
  let ?a = "\<lparr>timestamp = js ''10:00'', speaker = js ''A'', text_of = js ''Hello there'',
        tone = js ''calm'', intent = js ''greet''\<rparr>"
  let ?b = "\<lparr>timestamp = js ''10:00'', speaker = js ''A'', text_of = js ''HELLO there'',
        tone = js ''warm'', intent = js ''greet''\<rparr>"
  let ?d = "\<lparr>timestamp = js ''10:00'', speaker = js ''B'', text_of = js ''Hello again'',
        tone = js ''calm'', intent = js ''greet''\<rparr>"
  have clean: "\<forall>e \<in> set [?a, ?b, ?d]. 45 \<notin> set (timestamp e)" by code_simp
  have h1: "adjacentRepeat lowerCaseUnits ?a ?b \<and>
            lowerCaseUnits (take 20 (text_of ?a)) = lowerCaseUnits (take 20 (text_of ?b))"
    by code_simp
  have h2: "lowerCaseUnits (js ''Hello there'') \<noteq> lowerCaseUnits (js ''Hello again'')"
    by code_simp
  then have h3: "timestamp ?a = timestamp ?d \<and>
                 lowerCaseUnits (text_of ?a) \<noteq> lowerCaseUnits (text_of ?d)"
    by simp
  have h0: "45 \<notin> set (js ''10:00'')" by code_simp
  have out: "dedupe_spec lowerCaseUnits None {} [?a, ?b, ?d] = [?a, ?d]" by code_simp
  note inst = removeBoundaryDuplicates_single_pass
    [where lc = lowerCaseUnits and tr = "[?a, ?b, ?d]" and a = ?a and b = ?b and c = ?a and d = ?d]
  note spec = inst [THEN conjunct2, THEN conjunct2, THEN conjunct1, THEN mp, OF clean]
  note same = inst [THEN conjunct2, THEN conjunct2, THEN conjunct2, THEN conjunct1, THEN mp, OF h1]
  note diff = inst [THEN conjunct2, THEN conjunct2, THEN conjunct2, THEN conjunct2, THEN mp, OF h3]
  have result: "removeBoundaryDuplicates lowerCaseUnits [?a, ?b, ?d] = [?a, ?d]"
    using spec out by (rule trans)
  show ?thesis
    by (intro conjI) (rule h0 spec result h1 [THEN conjunct1] same h2 diff)+
qed

text \<open>
  C5, as the specification states it, has two adjacent entries with the same timestamp
  and the same text up to case collapse to one. The code takes the first 20 units before it
  lower-cases them, and lower-casing can change the length of a text: the lower case of
  \<open>U+0130\<close> is two units. So of two texts of nineteen \<open>a\<close> followed by \<open>U+0130\<close> and by \<open>i\<close>,
  \<open>U+0307\<close>, which agree up to case, the lower-cased first 20 units differ, the second key
  has not been seen, and both entries are kept.
\<close>

theorem removeBoundaryDuplicates_collapse_counterexample:
  "adjacentRepeat lowerCaseUnits
     \<lparr>timestamp = js ''00:05'', speaker = js ''Ana'', text_of = replicate 19 97 @ [304],
        tone = js ''calm'', intent = js ''inform''\<rparr>
     \<lparr>timestamp = js ''00:05'', speaker = js ''Ana'', text_of = replicate 19 97 @ [105, 775],
        tone = js ''calm'', intent = js ''inform''\<rparr> \<and>
   removeBoundaryDuplicates lowerCaseUnits
     [\<lparr>timestamp = js ''00:05'', speaker = js ''Ana'', text_of = replicate 19 97 @ [304],
         tone = js ''calm'', intent = js ''inform''\<rparr>,
      \<lparr>timestamp = js ''00:05'', speaker = js ''Ana'', text_of = replicate 19 97 @ [105, 775],
         tone = js ''calm'', intent = js ''inform''\<rparr>] =
     [\<lparr>timestamp = js ''00:05'', speaker = js ''Ana'', text_of = replicate 19 97 @ [304],
         tone = js ''calm'', intent = js ''inform''\<rparr>,
      \<lparr>timestamp = js ''00:05'', speaker = js ''Ana'', text_of = replicate 19 97 @ [105, 775],
         tone = js ''calm'', intent = js ''inform''\<rparr>]"
  by code_simp

text \<open>
  C10. The output of \<open>removeBoundaryDuplicates\<close> is a subsequence of its input: the entries
  kept are unchanged and in their order, and the first entry of a non-empty input is kept.
  Applying \<open>removeBoundaryDuplicates\<close> to its own output changes nothing. Both hold whatever
  the lower-casing is.
\<close>

theorem removeBoundaryDuplicates_subseq_idempotent:
  "subseq (removeBoundaryDuplicates toLowerCase tr) tr \<and>
   (\<exists>rest. removeBoundaryDuplicates toLowerCase (e # es) = e # rest) \<and>
   removeBoundaryDuplicates toLowerCase (removeBoundaryDuplicates toLowerCase tr) =
     removeBoundaryDuplicates toLowerCase tr"
proof -
  have "dedupe_pass toLowerCase (dedup_key toLowerCase) None {}
          (dedupe_pass toLowerCase (dedup_key toLowerCase) None {} tr) =
        dedupe_pass toLowerCase (dedup_key toLowerCase) None {} tr"
    by (rule dedupe_pass_twice) simp_all
  then show ?thesis
    by (simp add: removeBoundaryDuplicates_pass dedupe_pass_subseq)
qed

section \<open>Language merge\<close>









section \<open>The decision to chunk\<close>

text \<open>
  C9, as the code has it. \<open>shouldChunkVideo\<close> answers yes when the size of the file in MB
  exceeds \<open>maxSizeMB\<close>, whatever the duration is or whether it can be had. Otherwise, when
  the duration can be had, the answer is whether the duration in minutes exceeds
  \<open>maxDurationMinutes\<close>. Otherwise the answer is whether the size exceeds 50 MB: a fixed
  threshold, below \<open>maxSizeMB\<close> only when \<open>maxSizeMB\<close> is above 50; with \<open>maxSizeMB\<close> at
  most 50 the answer in this last case is always no.
\<close>

theorem shouldChunkVideo_decision:
  "(sizeMB fa > maxSizeMB \<longrightarrow>
      shouldChunkVideo (fa\<lparr>video_duration := v\<rparr>) maxSizeMB maxDurationMinutes) \<and>
   (sizeMB fb \<le> maxSizeMB \<and> video_duration fb = Some dur \<longrightarrow>
      shouldChunkVideo fb maxSizeMB maxDurationMinutes = (dur / 60 > maxDurationMinutes)) \<and>
   (sizeMB fc \<le> maxSizeMB \<and> video_duration fc = None \<longrightarrow>
      shouldChunkVideo fc maxSizeMB maxDurationMinutes = (sizeMB fc > 50)) \<and>
   (sizeMB fd \<le> maxSizeMB \<and> video_duration fd = None \<and> maxSizeMB \<le> 50 \<longrightarrow>
      \<not> shouldChunkVideo fd maxSizeMB maxDurationMinutes)"
  by (simp add: shouldChunkVideo_def sizeMB_def getVideoDuration_def Let_def)

theorem shouldChunkVideo_decision_witness:
  "sizeMB \<lparr>file_size = 209715200, file_type = js ''video/mp4'', video_duration = Some 30,
           video_loads = True, data_url = None\<rparr> > 100 \<and>
   shouldChunkVideo \<lparr>file_size = 209715200, file_type = js ''video/mp4'', video_duration = None,
           video_loads = True, data_url = None\<rparr> 100 60 \<and>
   sizeMB \<lparr>file_size = 10485760, file_type = js ''video/mp4'', video_duration = Some 5400,
           video_loads = True, data_url = None\<rparr> \<le> 100 \<and>
   shouldChunkVideo \<lparr>file_size = 10485760, file_type = js ''video/mp4'', video_duration = Some 5400,
           video_loads = True, data_url = None\<rparr> 100 60 \<and>
   sizeMB \<lparr>file_size = 83886080, file_type = js ''video/mp4'', video_duration = None,
           video_loads = True, data_url = None\<rparr> \<le> 100 \<and>
   shouldChunkVideo \<lparr>file_size = 83886080, file_type = js ''video/mp4'', video_duration = None,
           video_loads = True, data_url = None\<rparr> 100 60 \<and>
   sizeMB \<lparr>file_size = 31457280, file_type = js ''video/mp4'', video_duration = None,
           video_loads = True, data_url = None\<rparr> \<le> 30 \<and>
   \<not> shouldChunkVideo \<lparr>file_size = 31457280, file_type = js ''video/mp4'', video_duration = None,
           video_loads = True, data_url = None\<rparr> 30 60"
proof -
  let ?f1 = "\<lparr>file_size = 209715200, file_type = js ''video/mp4'', video_duration = Some 30,
              video_loads = True, data_url = None\<rparr>"
  let ?f2 = "\<lparr>file_size = 10485760, file_type = js ''video/mp4'', video_duration = Some 5400,
              video_loads = True, data_url = None\<rparr>"
  let ?f3 = "\<lparr>file_size = 83886080, file_type = js ''video/mp4'', video_duration = None,
              video_loads = True, data_url = None\<rparr>"
  let ?f4 = "\<lparr>file_size = 31457280, file_type = js ''video/mp4'', video_duration = None,
              video_loads = True, data_url = None\<rparr>"
  have h1: "sizeMB ?f1 > 100" by (simp add: sizeMB_def)
  have h2: "sizeMB ?f2 \<le> 100 \<and> video_duration ?f2 = Some 5400" by (simp add: sizeMB_def)
  have h3: "sizeMB ?f3 \<le> 100 \<and> video_duration ?f3 = None" by (simp add: sizeMB_def)
  have v3: "sizeMB ?f3 > 50" by (simp add: sizeMB_def)
  have h4: "sizeMB ?f4 \<le> 30 \<and> video_duration ?f4 = None \<and> (30::real) \<le> 50"
    by (simp add: sizeMB_def)
  note at100 = shouldChunkVideo_decision
    [where fa = ?f1 and fb = ?f2 and fc = ?f3 and fd = ?f4 and maxSizeMB = 100
       and maxDurationMinutes = 60 and v = None and dur = 5400]
  note at30 = shouldChunkVideo_decision
    [where fa = ?f1 and fb = ?f2 and fc = ?f3 and fd = ?f4 and maxSizeMB = 30
       and maxDurationMinutes = 60 and v = None and dur = 5400]
  have r1: "shouldChunkVideo (?f1\<lparr>video_duration := None\<rparr>) 100 60"
    using at100 h1 by blast
  have r2: "shouldChunkVideo ?f2 100 60 = ((5400::real) / 60 > 60)"
    using at100 h2 by blast
  have r3: "shouldChunkVideo ?f3 100 60 = (sizeMB ?f3 > 50)"
    using at100 h3 by blast
  have r4: "\<not> shouldChunkVideo ?f4 30 60"
    using at30 h4 by blast
  from r1 have r1': "shouldChunkVideo \<lparr>file_size = 209715200, file_type = js ''video/mp4'',
      video_duration = None, video_loads = True, data_url = None\<rparr> 100 60"
    by simp
  from r2 have r2': "shouldChunkVideo ?f2 100 60" by simp
  from r3 v3 have r3': "shouldChunkVideo ?f3 100 60" by simp
  from h1 h2 h3 h4 r1' r2' r3' r4 show ?thesis by blast
qed

text \<open>
  The claim as worded fails where \<open>maxSizeMB\<close> is 50 or less. With \<open>maxSizeMB\<close> = 30, a
  file of exactly 30 MB whose duration cannot be had is not chunked, while every threshold
  below 30 would have it chunked.
\<close>

theorem shouldChunkVideo_threshold_counterexample:
  "\<not> (\<exists>t. t < 30 \<and>
        shouldChunkVideo \<lparr>file_size = 31457280, file_type = js ''video/mp4'', video_duration = None,
            video_loads = True, data_url = None\<rparr> 30 60 =
        (sizeMB \<lparr>file_size = 31457280, file_type = js ''video/mp4'', video_duration = None,
            video_loads = True, data_url = None\<rparr> > t))"
  by (simp add: shouldChunkVideo_def sizeMB_def getVideoDuration_def Let_def)


section \<open>Timestamps\<close>

subsection \<open>Decimal digits\<close>

lemma isDigit_digitChar: "d < 10 \<Longrightarrow> isDigit (digitChar d)"
  by (simp add: isDigit_def digitChar_def)

lemma digitValue_digitChar: "digitValue (digitChar d) = d"
  by (simp add: digitValue_def digitChar_def)

lemma digitChar_zero: "(digitChar d = 48) = (d = 0)"
  by (simp add: digitChar_def)

lemma isDigit_value: "isDigit c \<Longrightarrow> digitValue c < 10 \<and> digitChar (digitValue c) = c"
  by (auto simp: isDigit_def digitValue_def digitChar_def)

lemma isDigit_not_colon: "isDigit c \<Longrightarrow> c \<noteq> 58"
  by (auto simp: isDigit_def)

lemma decimal_small: "n < 10 \<Longrightarrow> decimal n = [digitChar n]"
  by (simp add: decimal.simps)

lemma decimal_large: "10 \<le> n \<Longrightarrow> decimal n = decimal (n div 10) @ [digitChar (n mod 10)]"
  by (subst decimal.simps) simp

lemma decimal_step: "d < 10 \<Longrightarrow> 0 < m \<Longrightarrow> decimal (10 * m + d) = decimal m @ [digitChar d]"
  by (subst decimal.simps) simp

lemma decimal_digits: "list_all isDigit (decimal n)"
proof (induction n rule: decimal.induct)
  case (1 n)
  show ?case
  proof (cases "n < 10")
    case True
    then show ?thesis by (simp add: decimal_small isDigit_digitChar)
  next
    case False
    with 1 show ?thesis by (simp add: decimal_large isDigit_digitChar)
  qed
qed

lemma decimal_nonempty: "decimal n \<noteq> []"
  by (subst decimal.simps) simp

lemma decimalValue_snoc: "decimalValue (s @ [c]) = 10 * decimalValue s + digitValue c"
  by (simp add: decimalValue_def)

lemma decimalValue_decimal: "decimalValue (decimal n) = n"
proof (induction n rule: decimal.induct)
  case (1 n)
  show ?case
  proof (cases "n < 10")
    case True
    then show ?thesis by (simp add: decimal_small decimalValue_def digitValue_digitChar)
  next
    case False
    with 1 show ?thesis by (simp add: decimal_large decimalValue_snoc digitValue_digitChar)
  qed
qed

lemma hd_decimal: "0 < n \<Longrightarrow> hd (decimal n) \<noteq> 48"
proof (induction n rule: decimal.induct)
  case (1 n)
  show ?case
  proof (cases "n < 10")
    case True
    with 1 show ?thesis by (simp add: decimal_small digitChar_zero)
  next
    case False
    then have "0 < n div 10" by simp
    with 1 False show ?thesis by (simp add: decimal_large decimal_nonempty)
  qed
qed

lemma length_decimal_2: "10 \<le> n \<Longrightarrow> n < 100 \<Longrightarrow> length (decimal n) = 2"
  by (simp add: decimal_large decimal_small)

lemma decimalValue_pos: "s \<noteq> [] \<Longrightarrow> list_all isDigit s \<Longrightarrow> hd s \<noteq> 48 \<Longrightarrow> 0 < decimalValue s"
proof (induction s rule: rev_induct)
  case Nil
  then show ?case by simp
next
  case (snoc c s)
  show ?case
  proof (cases "s = []")
    case True
    with snoc.prems have "isDigit c" "c \<noteq> 48" by simp_all
    then have "0 < digitValue c" by (auto simp: isDigit_def digitValue_def)
    with True show ?thesis by (simp add: decimalValue_def)
  next
    case False
    with snoc have "0 < decimalValue s" by simp
    then show ?thesis by (simp add: decimalValue_snoc)
  qed
qed

lemma decimal_decimalValue:
  "s \<noteq> [] \<Longrightarrow> list_all isDigit s \<Longrightarrow> hd s \<noteq> 48 \<Longrightarrow> decimal (decimalValue s) = s"
proof (induction s rule: rev_induct)
  case Nil
  then show ?case by simp
next
  case (snoc c s)
  from snoc.prems have c: "isDigit c" by simp
  show ?case
  proof (cases "s = []")
    case True
    with c show ?thesis
      by (simp add: decimalValue_def decimal_small isDigit_value)
  next
    case False
    with snoc have ih: "decimal (decimalValue s) = s" and pos: "0 < decimalValue s"
      by (simp_all add: decimalValue_pos)
    show ?thesis
      using c ih pos by (simp add: decimalValue_snoc decimal_step isDigit_value)
  qed
qed

subsection \<open>Splitting at the colon, and the arithmetic of the adjustment\<close>

lemma split_js_nonempty: "split_js sep s \<noteq> []"
  by (induction s) (auto simp: Let_def)

lemma split_js_no_sep: "sep \<notin> set s \<Longrightarrow> split_js sep s = [s]"
  by (induction s) (auto simp: Let_def)

lemma split_js_append:
  "sep \<notin> set a \<Longrightarrow> split_js sep (a @ sep # b) = a # split_js sep b"
  by (induction a) (auto simp: Let_def)

lemma split_js_two:
  "sep \<notin> set a \<Longrightarrow> sep \<notin> set b \<Longrightarrow> split_js sep (a @ sep # b) = [a, b]"
  by (simp add: split_js_append split_js_no_sep)

lemma split_js_join: "join_js [sep] (split_js sep s) = s"
proof (induction s)
  case Nil
  show ?case by simp
next
  case (Cons c s)
  obtain p ps where ps: "split_js sep s = p # ps"
    using split_js_nonempty [of sep s] by (cases "split_js sep s") auto
  show ?case
  proof (cases "c = sep")
    case True
    with Cons ps show ?thesis by simp
  next
    case False
    with Cons ps show ?thesis by (cases ps) (auto simp: Let_def)
  qed
qed

lemma split_js_pair: "split_js sep s = [a, b] \<Longrightarrow> s = a @ sep # b"
  using split_js_join [of sep s] by simp

lemma digits_no_colon: "list_all isDigit s \<Longrightarrow> 58 \<notin> set s"
  using isDigit_not_colon by (auto simp: list_all_iff)

lemma floor_div_60: "\<lfloor>real t / 60\<rfloor> = int (t div 60)"
proof -
  have "\<lfloor>real t / real 60\<rfloor> = int (t div 60)"
    by (rule floor_divide_of_nat_eq)
  then show ?thesis by simp
qed

lemma num_rem_60: "num_rem (Num (real t)) 60 = Num (real (t mod 60))"
proof -
  have "real t - 60 * real (t div 60) = real (t mod 60)"
  proof -
    have a: "real (t mod 60) + real (60 * (t div 60)) = real t"
      by (simp only: of_nat_add [symmetric] mod_mult_div_eq)
    have b: "real (60 * (t div 60)) = 60 * real (t div 60)"
      by simp
    from a b show ?thesis by linarith
  qed
  then show ?thesis by (simp add: floor_div_60)
qed

lemma bitLength_le: "n < 2 ^ k \<Longrightarrow> bitLength n \<le> k"
proof (induction k arbitrary: n)
  case 0
  then show ?case by (simp add: bitLength.simps)
next
  case (Suc k)
  show ?case
  proof (cases "n = 0")
    case True
    then show ?thesis by (simp add: bitLength.simps)
  next
    case False
    from Suc.prems have "n div 2 < 2 ^ k" by simp
    then have "bitLength (n div 2) \<le> k" by (rule Suc.IH)
    with False show ?thesis by (subst bitLength.simps) simp
  qed
qed

lemma toDouble_exact: "n < 2 ^ 53 \<Longrightarrow> toDouble n = n"
  using bitLength_le [of n 53] by (simp add: toDouble_def Let_def)

lemma Number_digits:
  "list_all isDigit s \<Longrightarrow> decimalValue s < 2 ^ 53 \<Longrightarrow> Number s = Num (real (decimalValue s))"
  by (simp add: Number_def toDouble_exact)

lemma fractionDigits_zero: "fractionDigits k 0 = []"
  by (cases k) simp_all

lemma String_js_nat: "String_js (Num (real k)) = decimal k"
  by (simp add: fractionDigits_zero)

lemma adjustTimestamp_fields:
  assumes "split_js 58 ts = mm # ss # rest"
    and "list_all isDigit mm" and "list_all isDigit ss"
    and "60 * decimalValue mm + decimalValue ss + n < 2 ^ 53"
  shows "adjustTimestamp ts (real n) = formatTimestamp (60 * decimalValue mm + decimalValue ss + n)"
proof -
  let ?t = "60 * decimalValue mm + decimalValue ss + n"
  from assms(4) have bm: "decimalValue mm < 2 ^ 53" and bs: "decimalValue ss < 2 ^ 53"
    by simp_all
  have nm: "Number mm = Num (real (decimalValue mm))"
    using assms(2) bm by (rule Number_digits)
  have ns: "Number ss = Num (real (decimalValue ss))"
    using assms(3) bs by (rule Number_digits)
  have total: "num_add (num_add (num_mul (Number mm) (Num 60)) (Number ss)) (Num (real n)) = Num (real ?t)"
    by (simp add: nm ns)
  have m: "Math_floor (num_div (Num (real ?t)) 60) = Num (real (?t div 60))"
    by (simp only: num_div.simps Math_floor.simps floor_div_60) simp
  have s: "Math_floor (num_rem (Num (real ?t)) 60) = Num (real (?t mod 60))"
    by (simp only: num_rem_60 Math_floor.simps) simp
  have fields: "map Number (split_js 58 ts) = Number mm # Number ss # map Number rest"
    using assms(1) by simp
  have a0: "\<And>x y zs. to_number (at_js (x # y # zs) 0) = x"
    by (simp add: at_js_def to_number_def)
  have a1: "\<And>x y zs. to_number (at_js (x # y # zs) 1) = y"
    by (simp add: at_js_def to_number_def)
  show ?thesis
    unfolding adjustTimestamp_def Let_def fields a0 a1 total m s String_js_nat formatTimestamp_def
    by (rule refl)
qed

subsection \<open>Well-formed timestamps\<close>

lemma isDigit_zero: "isDigit 48"
  by (simp add: isDigit_def)

lemma decimalValue_zero_Cons: "decimalValue (48 # s) = decimalValue s"
  by (simp add: decimalValue_def digitValue_def)

lemma padStart_short: "n < 10 \<Longrightarrow> padStart 2 48 (decimal n) = [48, digitChar n]"
  by (simp add: padStart_def decimal_small)

lemma padStart_long: "10 \<le> n \<Longrightarrow> padStart 2 48 (decimal n) = decimal n"
proof -
  assume "10 \<le> n"
  then have "decimal n = decimal (n div 10) @ [digitChar (n mod 10)]"
    by (rule decimal_large)
  moreover have "1 \<le> length (decimal (n div 10))"
    using decimal_nonempty [of "n div 10"] by (cases "decimal (n div 10)") simp_all
  ultimately have "2 \<le> length (decimal n)" by simp
  then show ?thesis by (simp add: padStart_def)
qed

lemma padded_digits: "list_all isDigit (padStart 2 48 (decimal n))"
  by (cases "n < 10") (simp_all add: padStart_short padStart_long isDigit_zero isDigit_digitChar decimal_digits)

lemma padded_value: "decimalValue (padStart 2 48 (decimal n)) = n"
proof (cases "n < 10")
  case True
  have "padStart 2 48 (decimal n) = 48 # decimal n"
    using True by (simp add: padStart_def decimal_small)
  then show ?thesis
    by (simp only: decimalValue_zero_Cons decimalValue_decimal)
next
  case False
  then show ?thesis by (simp add: padStart_long decimalValue_decimal)
qed

lemma padded_length: "2 \<le> length (padStart 2 48 (decimal n))"
  by (simp add: padStart_def)

lemma padded_length_2: "n < 100 \<Longrightarrow> length (padStart 2 48 (decimal n)) = 2"
  by (cases "n < 10") (simp_all add: padStart_short padStart_long length_decimal_2)

lemma padded_hd:
  "length (padStart 2 48 (decimal n)) \<noteq> 2 \<Longrightarrow> hd (padStart 2 48 (decimal n)) \<noteq> 48"
proof -
  assume a: "length (padStart 2 48 (decimal n)) \<noteq> 2"
  then have "\<not> n < 100" using padded_length_2 by blast
  then have "10 \<le> n" and "0 < n" by simp_all
  then show ?thesis by (simp add: padStart_long hd_decimal)
qed

lemma split_formatTimestamp:
  "split_js 58 (formatTimestamp t) =
   [padStart 2 48 (decimal (t div 60)), padStart 2 48 (decimal (t mod 60))]"
proof -
  have "formatTimestamp t =
        padStart 2 48 (decimal (t div 60)) @ 58 # padStart 2 48 (decimal (t mod 60))"
    by (simp add: formatTimestamp_def js_def)
  then show ?thesis
    by (simp only: split_js_two [OF digits_no_colon [OF padded_digits] digits_no_colon [OF padded_digits]])
qed

lemma wellFormed_formatTimestamp: "wellFormedTimestamp (formatTimestamp t)"
proof -
  have "t mod 60 < 100" by (rule less_trans [OF mod_less_divisor]) simp_all
  then have "length (padStart 2 48 (decimal (t mod 60))) = 2"
    by (rule padded_length_2)
  moreover have "length (padStart 2 48 (decimal (t div 60))) = 2 \<or>
      hd (padStart 2 48 (decimal (t div 60))) \<noteq> 48"
    using padded_hd [of "t div 60"] by blast
  ultimately show ?thesis
    using padded_length [of "t div 60"]
    by (simp add: wellFormedTimestamp_def split_formatTimestamp padded_digits padded_value)
qed

lemma timestampSeconds_formatTimestamp: "timestampSeconds (formatTimestamp t) = t"
  by (simp add: timestampSeconds_def split_formatTimestamp padded_value)

lemma padded_canonical:
  assumes "list_all isDigit s" and "2 \<le> length s" and "length s = 2 \<or> hd s \<noteq> 48"
  shows "padStart 2 48 (decimal (decimalValue s)) = s"
proof (cases "hd s = 48")
  case False
  from assms(2) have "s \<noteq> []" by auto
  with assms(1) False have "decimal (decimalValue s) = s"
    by (simp add: decimal_decimalValue)
  with assms(2) show ?thesis by (simp add: padStart_def)
next
  case True
  with assms(3) have "length s = 2" by simp
  then obtain a c where s: "s = [a, c]"
    by (cases s; cases "tl s") auto
  with True have a: "a = 48" by simp
  from s assms(1) have c: "isDigit c" by simp
  then have "digitValue c < 10" and dc: "digitChar (digitValue c) = c"
    by (simp_all add: isDigit_value)
  then have p: "padStart 2 48 (decimal (digitValue c)) = [48, c]"
    by (simp only: padStart_short)
  have v: "decimalValue [48, c] = digitValue c"
    by (simp add: decimalValue_zero_Cons) (simp add: decimalValue_def)
  show ?thesis
    unfolding s a v by (rule p)
qed

lemma wellFormed_fields:
  assumes "wellFormedTimestamp ts"
  obtains mm ss where "split_js 58 ts = [mm, ss]" and "ts = mm @ 58 # ss"
    and "list_all isDigit mm" and "list_all isDigit ss" and "length ss = 2"
    and "decimalValue ss < 60" and "2 \<le> length mm" and "length mm = 2 \<or> hd mm \<noteq> 48"
proof -
  from assms obtain mm ss where sp: "split_js 58 ts = [mm, ss]"
    by (auto simp: wellFormedTimestamp_def split: list.splits)
  with assms have "list_all isDigit mm" "list_all isDigit ss" "length ss = 2"
    "decimalValue ss < 60" "2 \<le> length mm" "length mm = 2 \<or> hd mm \<noteq> 48"
    by (simp_all add: wellFormedTimestamp_def)
  with sp split_js_pair [OF sp] that show ?thesis by blast
qed

lemma formatTimestamp_timestampSeconds:
  assumes "wellFormedTimestamp ts"
  shows "formatTimestamp (timestampSeconds ts) = ts"
proof -
  from assms obtain mm ss where sp: "split_js 58 ts = [mm, ss]"
    and ts: "ts = mm @ 58 # ss"
    and dm: "list_all isDigit mm" and ds: "list_all isDigit ss" and ls: "length ss = 2"
    and vs: "decimalValue ss < 60" and lm: "2 \<le> length mm"
    and cm: "length mm = 2 \<or> hd mm \<noteq> 48"
    by (rule wellFormed_fields)
  have t: "timestampSeconds ts = 60 * decimalValue mm + decimalValue ss"
    by (simp add: timestampSeconds_def sp)
  have d: "(60 * decimalValue mm + decimalValue ss) div 60 = decimalValue mm"
    using vs by simp
  have m: "(60 * decimalValue mm + decimalValue ss) mod 60 = decimalValue ss"
    using vs by simp
  have pm: "padStart 2 48 (decimal (decimalValue mm)) = mm"
    using dm lm cm by (rule padded_canonical)
  have ps: "padStart 2 48 (decimal (decimalValue ss)) = ss"
    using ds ls by (intro padded_canonical) simp_all
  have "formatTimestamp (timestampSeconds ts) = mm @ js '':'' @ ss"
    unfolding formatTimestamp_def t d m pm ps by (rule refl)
  then show ?thesis by (simp add: ts js_def)
qed

lemma adjustTimestamp_wellFormed:
  assumes "wellFormedTimestamp ts" and "timestampSeconds ts + n < 2 ^ 53"
  shows "adjustTimestamp ts (real n) = formatTimestamp (timestampSeconds ts + n)"
proof -
  from assms(1) obtain mm ss where sp: "split_js 58 ts = [mm, ss]"
    and dm: "list_all isDigit mm" and ds: "list_all isDigit ss"
    by (rule wellFormed_fields)
  have b: "60 * decimalValue mm + decimalValue ss + n < 2 ^ 53"
    using assms(2) by (simp add: timestampSeconds_def sp)
  from adjustTimestamp_fields [OF sp dm ds b] show ?thesis
    by (simp add: timestampSeconds_def sp)
qed

lemma js_colon: "js '':'' = [58]"
  by (simp add: js_def)

lemma bitLength_exact: "2 ^ k \<le> n \<Longrightarrow> n < 2 ^ Suc k \<Longrightarrow> bitLength n = Suc k"
proof (induction k arbitrary: n)
  case 0
  then have "n = 1" by simp
  then show ?case by (simp add: bitLength.simps)
next
  case (Suc k)
  from Suc.prems have "2 ^ k \<le> n div 2" and "n div 2 < 2 ^ Suc k" by simp_all
  then have "bitLength (n div 2) = Suc k" by (rule Suc.IH)
  moreover from Suc.prems have "n \<noteq> 0" by auto
  ultimately show ?case by (subst bitLength.simps) simp
qed

lemma adjustTimestamp_rounds:
  "wellFormedTimestamp (js ''9007199254740993:00'') \<and>
   adjustTimestamp (js ''9007199254740993:00'') 0 = js ''9007199254740992:00''"
proof -
  have w: "wellFormedTimestamp (js ''9007199254740993:00'')"
    by (simp add: wellFormedTimestamp_def js_def isDigit_def decimalValue_def digitValue_def)
  have "bitLength 9007199254740993 = Suc 53"
    by (rule bitLength_exact) simp_all
  then have r: "toDouble 9007199254740993 = 9007199254740992"
    by (simp add: toDouble_def Let_def)
  have sp: "split_js 58 (js ''9007199254740993:00'') = [js ''9007199254740993'', js ''00'']"
    by (simp add: js_def)
  have m: "Number (js ''9007199254740993'') = Num 9007199254740992"
    by (simp add: Number_def r js_def isDigit_def decimalValue_def digitValue_def)
  have s: "Number (js ''00'') = Num 0"
    by (simp add: Number_def toDouble_exact js_def isDigit_def decimalValue_def digitValue_def)
  have d: "decimal 9007199254740992 = js ''9007199254740992''"
    by (simp add: decimal.simps digitChar_def js_def)
  have z: "decimal 0 = js ''0''"
    by (simp add: decimal.simps digitChar_def js_def)
  have a: "adjustTimestamp (js ''9007199254740993:00'') 0 = js ''9007199254740992:00''"
    by (simp add: adjustTimestamp_def sp m s at_js_def to_number_def d z padStart_def
        fractionDigits_zero) (simp add: js_def)
  with w show ?thesis by simp
qed

lemma adjustTimestamp_five:
  assumes "n < 2 ^ 52"
  shows "adjustTimestamp (js ''00:05'') (real n) = formatTimestamp (5 + n)"
proof -
  have wf: "wellFormedTimestamp (js ''00:05'')"
    by (simp add: wellFormedTimestamp_def js_def isDigit_def decimalValue_def digitValue_def)
  have t: "timestampSeconds (js ''00:05'') = 5"
    by (simp add: timestampSeconds_def js_def decimalValue_def digitValue_def)
  have "timestampSeconds (js ''00:05'') + n < 2 ^ 53"
    using assms by (simp add: t)
  with wf have "adjustTimestamp (js ''00:05'') (real n) =
      formatTimestamp (timestampSeconds (js ''00:05'') + n)"
    by (rule adjustTimestamp_wellFormed)
  then show ?thesis by (simp add: t)
qed

text \<open>
  C6, as the code has it. \<open>adjustTimestamp\<close> takes \<open>05:30\<close> and 90 to \<open>07:00\<close>, and \<open>00:59\<close> and
  61 to \<open>02:00\<close>. The fields of a timestamp become doubles, and a double holds an integer
  exactly only below \<open>2 ^ 53\<close>; so the general statements are for timestamps and offsets
  whose total number of seconds is below \<open>2 ^ 53\<close>. On such a well-formed timestamp,
  adjusting by 0 changes nothing. On such a well-formed timestamp and an offset that is
  a natural number of seconds, the result is two fields of digits around a colon, the
  minutes of at least two digits and the seconds of exactly two, holding the total number
  of seconds divided by 60 (not reduced modulo 60 into hours) and its remainder; so the
  result is well-formed again and stands for the old number of seconds plus the offset.
  More generally, any two fields of digits around a colon are taken to the timestamp of
  their total: seconds of 60 or more and needless zeros before the minutes are normalised
  away, which is why the identity at offset 0 is for well-formed timestamps. A timestamp
  with no colon has no seconds field: its total is \<open>NaN\<close>, and it comes out as \<open>NaN:NaN\<close>.
\<close>

theorem adjustTimestamp_offset_format:
  "adjustTimestamp (js ''05:30'') 90 = js ''07:00'' \<and>
   adjustTimestamp (js ''00:59'') 61 = js ''02:00'' \<and>
   (wellFormedTimestamp ts \<and> timestampSeconds ts < 2 ^ 53 \<longrightarrow> adjustTimestamp ts 0 = ts) \<and>
   (wellFormedTimestamp ts \<and> timestampSeconds ts + n < 2 ^ 53 \<longrightarrow>
      (\<exists>mm ss. adjustTimestamp ts (real n) = mm @ js '':'' @ ss \<and>
         list_all isDigit mm \<and> list_all isDigit ss \<and> 2 \<le> length mm \<and> length ss = 2 \<and>
         decimalValue mm = (timestampSeconds ts + n) div 60 \<and>
         decimalValue ss = (timestampSeconds ts + n) mod 60) \<and>
      wellFormedTimestamp (adjustTimestamp ts (real n)) \<and>
      timestampSeconds (adjustTimestamp ts (real n)) = timestampSeconds ts + n) \<and>
   (list_all isDigit minutes \<and> list_all isDigit seconds \<and>
    60 * decimalValue minutes + decimalValue seconds + k < 2 ^ 53 \<longrightarrow>
      adjustTimestamp (minutes @ js '':'' @ seconds) (real k) =
        formatTimestamp (60 * decimalValue minutes + decimalValue seconds + k) \<and>
      wellFormedTimestamp (adjustTimestamp (minutes @ js '':'' @ seconds) (real k))) \<and>
   adjustTimestamp (js ''5'') 0 = js ''NaN:NaN''"
proof -
  have nan: "adjustTimestamp (js ''5'') 0 = js ''NaN:NaN''"
    by (simp add: adjustTimestamp_def at_js_def to_number_def padStart_def js_def)
  have fields: "adjustTimestamp (minutes @ js '':'' @ seconds) (real k) =
        formatTimestamp (60 * decimalValue minutes + decimalValue seconds + k) \<and>
      wellFormedTimestamp (adjustTimestamp (minutes @ js '':'' @ seconds) (real k))"
    if dm: "list_all isDigit minutes" and ds: "list_all isDigit seconds"
      and b: "60 * decimalValue minutes + decimalValue seconds + k < 2 ^ 53"
    for minutes seconds k
  proof -
    have "split_js 58 (minutes @ 58 # seconds) = [minutes, seconds]"
      using digits_no_colon [OF dm] digits_no_colon [OF ds] by (rule split_js_two)
    then have sp: "split_js 58 (minutes @ js '':'' @ seconds) = [minutes, seconds]"
      by (simp add: js_colon)
    have "adjustTimestamp (minutes @ js '':'' @ seconds) (real k) =
        formatTimestamp (60 * decimalValue minutes + decimalValue seconds + k)"
      using sp dm ds b by (rule adjustTimestamp_fields)
    then show ?thesis by (simp add: wellFormed_formatTimestamp)
  qed
  have "adjustTimestamp (js ''05'' @ js '':'' @ js ''30'') (real 90) =
      formatTimestamp (60 * decimalValue (js ''05'') + decimalValue (js ''30'') + 90)"
    by (rule fields [THEN conjunct1])
      (simp_all add: js_def isDigit_def decimalValue_def digitValue_def)
  then have e1: "adjustTimestamp (js ''05:30'') 90 = js ''07:00''"
    by (simp add: js_def decimalValue_def digitValue_def formatTimestamp_def decimal_small
        digitChar_def padStart_def)
  have "adjustTimestamp (js ''00'' @ js '':'' @ js ''59'') (real 61) =
      formatTimestamp (60 * decimalValue (js ''00'') + decimalValue (js ''59'') + 61)"
    by (rule fields [THEN conjunct1])
      (simp_all add: js_def isDigit_def decimalValue_def digitValue_def)
  then have e2: "adjustTimestamp (js ''00:59'') 61 = js ''02:00''"
    by (simp add: js_def decimalValue_def digitValue_def formatTimestamp_def decimal_small
        digitChar_def padStart_def)
  have zero: "adjustTimestamp ts 0 = ts"
    if wf: "wellFormedTimestamp ts" and b: "timestampSeconds ts < 2 ^ 53"
  proof -
    from b have "timestampSeconds ts + 0 < 2 ^ 53" by simp
    with wf have "adjustTimestamp ts (real 0) = formatTimestamp (timestampSeconds ts + 0)"
      by (rule adjustTimestamp_wellFormed)
    then show ?thesis
      using wf by (simp add: formatTimestamp_timestampSeconds)
  qed
  have general:
     "(\<exists>mm ss. adjustTimestamp ts (real n) = mm @ js '':'' @ ss \<and>
         list_all isDigit mm \<and> list_all isDigit ss \<and> 2 \<le> length mm \<and> length ss = 2 \<and>
         decimalValue mm = (timestampSeconds ts + n) div 60 \<and>
         decimalValue ss = (timestampSeconds ts + n) mod 60) \<and>
      wellFormedTimestamp (adjustTimestamp ts (real n)) \<and>
      timestampSeconds (adjustTimestamp ts (real n)) = timestampSeconds ts + n"
    if wf: "wellFormedTimestamp ts" and b: "timestampSeconds ts + n < 2 ^ 53"
  proof -
    let ?t = "timestampSeconds ts + n"
    have adj: "adjustTimestamp ts (real n) = formatTimestamp ?t"
      using wf b by (rule adjustTimestamp_wellFormed)
    have "?t mod 60 < 100" by (rule less_trans [OF mod_less_divisor]) simp_all
    then have len: "length (padStart 2 48 (decimal (?t mod 60))) = 2"
      by (rule padded_length_2)
    have shape: "\<exists>mm ss. adjustTimestamp ts (real n) = mm @ js '':'' @ ss \<and>
         list_all isDigit mm \<and> list_all isDigit ss \<and> 2 \<le> length mm \<and> length ss = 2 \<and>
         decimalValue mm = ?t div 60 \<and> decimalValue ss = ?t mod 60"
      unfolding adj formatTimestamp_def
      using padded_digits padded_length padded_value len by blast
    show ?thesis
      using shape
      by (simp add: adj wellFormed_formatTimestamp timestampSeconds_formatTimestamp)
  qed
  from e1 e2 zero general fields nan show ?thesis by blast
qed

theorem adjustTimestamp_offset_format_witness:
  "wellFormedTimestamp (js ''99:59'') \<and> timestampSeconds (js ''99:59'') + 61 < 2 ^ 53 \<and>
   adjustTimestamp (js ''99:59'') 0 = js ''99:59'' \<and>
   wellFormedTimestamp (adjustTimestamp (js ''99:59'') 61) \<and>
   timestampSeconds (adjustTimestamp (js ''99:59'') 61) = timestampSeconds (js ''99:59'') + 61 \<and>
   list_all isDigit (js ''00'') \<and> list_all isDigit (js ''75'') \<and>
   60 * decimalValue (js ''00'') + decimalValue (js ''75'') + 0 < 2 ^ 53 \<and>
   adjustTimestamp (js ''00:75'') 0 = js ''01:15'' \<and>
   wellFormedTimestamp (adjustTimestamp (js ''00:75'') 0)"
proof -
  have wf: "wellFormedTimestamp (js ''99:59'')"
    by (simp add: wellFormedTimestamp_def js_def isDigit_def decimalValue_def digitValue_def)
  have t: "timestampSeconds (js ''99:59'') = 5999"
    by (simp add: timestampSeconds_def js_def decimalValue_def digitValue_def)
  have d: "list_all isDigit (js ''00'') \<and> list_all isDigit (js ''75'')"
    by (simp add: js_def isDigit_def)
  have v: "60 * decimalValue (js ''00'') + decimalValue (js ''75'') + 0 = 75"
    by (simp add: js_def decimalValue_def digitValue_def)
  have f: "formatTimestamp 75 = js ''01:15''"
    by (simp add: js_def formatTimestamp_def decimal_small decimal.simps digitChar_def padStart_def)
  have c: "js ''00'' @ js '':'' @ js ''75'' = js ''00:75''"
    by (simp add: js_def)
  note inst = adjustTimestamp_offset_format
    [where ts = "js ''99:59''" and n = 61 and minutes = "js ''00''" and seconds = "js ''75''"
       and k = 0]
  have b0: "wellFormedTimestamp (js ''99:59'') \<and> timestampSeconds (js ''99:59'') < 2 ^ 53"
    using wf by (simp add: t)
  have bn: "wellFormedTimestamp (js ''99:59'') \<and> timestampSeconds (js ''99:59'') + 61 < 2 ^ 53"
    using wf by (simp add: t)
  have bk: "list_all isDigit (js ''00'') \<and> list_all isDigit (js ''75'') \<and>
      60 * decimalValue (js ''00'') + decimalValue (js ''75'') + 0 < 2 ^ 53"
    using d by (simp only: v) simp
  note a = inst [THEN conjunct2, THEN conjunct2, THEN conjunct1, THEN mp, OF b0]
  note g = inst [THEN conjunct2, THEN conjunct2, THEN conjunct2, THEN conjunct1, THEN mp, OF bn]
  note h = inst [THEN conjunct2, THEN conjunct2, THEN conjunct2, THEN conjunct2, THEN conjunct1,
    THEN mp, OF bk]
  from g have g1: "wellFormedTimestamp (adjustTimestamp (js ''99:59'') 61)"
    and g2: "timestampSeconds (adjustTimestamp (js ''99:59'') 61) = timestampSeconds (js ''99:59'') + 61"
    by simp_all
  from h [THEN conjunct1] have h1: "adjustTimestamp (js ''00:75'') 0 = js ''01:15''"
    by (simp only: v f c of_nat_0)
  from h [THEN conjunct2] have h2: "wellFormedTimestamp (adjustTimestamp (js ''00:75'') 0)"
    by (simp only: c of_nat_0)
  from bn a g1 g2 d bk h1 h2 show ?thesis by simp
qed

text \<open>
  C6, as the specification states it, asks for the identity at offset 0 on every
  well-formed timestamp. The minutes are read into a double: \<open>9007199254740993\<close> is
  \<open>2 ^ 53 + 1\<close>, which no double holds, and the well-formed timestamp
  \<open>9007199254740993:00\<close> comes back as \<open>9007199254740992:00\<close>.
\<close>

theorem adjustTimestamp_identity_counterexample:
  "wellFormedTimestamp (js ''9007199254740993:00'') \<and>
   adjustTimestamp (js ''9007199254740993:00'') 0 = js ''9007199254740992:00'' \<and>
   adjustTimestamp (js ''9007199254740993:00'') 0 \<noteq> js ''9007199254740993:00''"
proof -
  have "js ''9007199254740992:00'' \<noteq> js ''9007199254740993:00''"
    by (simp add: js_def)
  with adjustTimestamp_rounds show ?thesis by simp
qed


section \<open>Cumulative offsets of the merger\<close>

lemma foldl_push: "foldl (\<lambda>acc x. acc @ [f x]) acc xs = acc @ map f xs"
  by (induction xs arbitrary: acc) simp_all

lemma merge_loop_offsets:
  "chunkIndex + length chunks \<le> length durs \<Longrightarrow>
   merge_loop chunks durs chunkIndex (merged, cumulativeTime) =
   (merged @
      concat (map (\<lambda>k. map (\<lambda>segment. segment\<lparr>timestamp :=
                    adjustTimestamp (timestamp segment)
                      (cumulativeTime + sum_list (take k (drop chunkIndex durs)))\<rparr>)
                 (transcript (chunks ! k)))
        [0..<length chunks]),
    cumulativeTime + sum_list (take (length chunks) (drop chunkIndex durs)))"
proof (induction chunks arbitrary: chunkIndex merged cumulativeTime)
  case Nil
  show ?case by simp
next
  case (Cons chunk rest)
  then have i: "chunkIndex < length durs" and rest: "(chunkIndex + 1) + length rest \<le> length durs"
    by simp_all
  have d: "drop chunkIndex durs = durs ! chunkIndex # drop (chunkIndex + 1) durs"
    using i by (simp add: Cons_nth_drop_Suc)
  have u: "[0..<length (chunk # rest)] = 0 # map Suc [0..<length rest]"
    by (simp add: upt_conv_Cons map_Suc_upt del: upt_Suc)
  show ?case
    using i
    by (simp only: merge_loop.simps foldl_push Cons.IH [OF rest] u d)
       (simp add: o_def add.assoc)
qed

lemma sum_list_real: "sum_list (map real secs) = real (sum_list secs)"
  by (induction secs) simp_all

lemma map_nth_upt: "map (\<lambda>k. f (xs ! k)) [0..<length xs] = map f xs"
proof -
  have "map (\<lambda>k. f (xs ! k)) [0..<length xs] = map f (map (\<lambda>k. xs ! k) [0..<length xs])"
    by simp
  then show ?thesis by (simp only: map_nth)
qed

text \<open>
  C1, as the code has it. For a non-empty list of results with as many durations,
  \<open>mergeTranscripts\<close> returns a transcript that is the concatenation, in order, of the
  transcripts of the results, where every entry of result \<open>k\<close> has its timestamp adjusted by
  the sum of the durations supplied for the results before \<open>k\<close>; its length is the sum of the
  lengths; and the cumulative time after the last result is the sum of all durations. When
  the durations are whole seconds, a well-formed timestamp of result \<open>k\<close> whose number of
  seconds plus that sum is below \<open>2 ^ 53\<close> comes out well-formed and stands for its old
  number of seconds plus that sum. Three results of one entry each at \<open>00:05\<close>, with
  durations 600, 600 and 300, give the timestamps \<open>00:05\<close>, \<open>10:05\<close>, \<open>20:05\<close>.
\<close>

theorem mergeTranscripts_cumulative_offsets:
  "(chunks \<noteq> [] \<and> length chunkDurations = length chunks \<longrightarrow>
      (\<exists>r. mergeTranscripts toLowerCase chunks chunkDurations = Inr r \<and>
         transcript r =
           concat (map (\<lambda>k. map (\<lambda>segment. segment\<lparr>timestamp :=
                           adjustTimestamp (timestamp segment) (sum_list (take k chunkDurations))\<rparr>)
                         (transcript (chunks ! k)))
                     [0..<length chunks]) \<and>
         length (transcript r) = sum_list (map (\<lambda>c. length (transcript c)) chunks)) \<and>
      snd (merge_loop chunks chunkDurations 0 ([], 0)) = sum_list chunkDurations \<and>
      (\<forall>secs k segment.
         chunkDurations = map real secs \<and> k < length chunks \<and>
         segment \<in> set (transcript (chunks ! k)) \<and> wellFormedTimestamp (timestamp segment) \<and>
         timestampSeconds (timestamp segment) + sum_list (take k secs) < 2 ^ 53 \<longrightarrow>
         wellFormedTimestamp
           (adjustTimestamp (timestamp segment) (sum_list (take k chunkDurations))) \<and>
         timestampSeconds
           (adjustTimestamp (timestamp segment) (sum_list (take k chunkDurations))) =
           timestampSeconds (timestamp segment) + sum_list (take k secs))) \<and>
   (transcript ca = [ea] \<and> transcript cb = [eb] \<and> transcript cc = [ec] \<and>
    timestamp ea = js ''00:05'' \<and> timestamp eb = js ''00:05'' \<and> timestamp ec = js ''00:05'' \<longrightarrow>
      (\<exists>r. mergeTranscripts toLowerCase [ca, cb, cc] [600, 600, 300] = Inr r \<and>
         map timestamp (transcript r) = [js ''00:05'', js ''10:05'', js ''20:05'']))"
proof -
  have general: "(\<exists>r. mergeTranscripts toLowerCase chunks chunkDurations = Inr r \<and>
         transcript r =
           concat (map (\<lambda>k. map (\<lambda>segment. segment\<lparr>timestamp :=
                           adjustTimestamp (timestamp segment) (sum_list (take k chunkDurations))\<rparr>)
                         (transcript (chunks ! k)))
                     [0..<length chunks]) \<and>
         length (transcript r) = sum_list (map (\<lambda>c. length (transcript c)) chunks)) \<and>
      snd (merge_loop chunks chunkDurations 0 ([], 0)) = sum_list chunkDurations"
    if ne: "chunks \<noteq> []" and len: "length chunkDurations = length chunks"
  proof -
    have loop: "merge_loop chunks chunkDurations 0 ([], 0) =
      (concat (map (\<lambda>k. map (\<lambda>segment. segment\<lparr>timestamp :=
                           adjustTimestamp (timestamp segment) (sum_list (take k chunkDurations))\<rparr>)
                         (transcript (chunks ! k)))
                     [0..<length chunks]),
       sum_list chunkDurations)"
      using len merge_loop_offsets [of 0 chunks chunkDurations "[]" 0] by simp
    have l: "length (concat (map (\<lambda>k. map (\<lambda>segment. segment\<lparr>timestamp :=
                           adjustTimestamp (timestamp segment) (sum_list (take k chunkDurations))\<rparr>)
                         (transcript (chunks ! k)))
                     [0..<length chunks])) = sum_list (map (\<lambda>c. length (transcript c)) chunks)"
    proof -
      have "map (\<lambda>k. length (transcript (chunks ! k))) [0..<length chunks] =
            map (\<lambda>c. length (transcript c)) chunks"
        by (rule map_nth_upt)
      then show ?thesis by (simp add: length_concat o_def)
    qed
    from ne obtain c cs where "chunks = c # cs" by (cases chunks) auto
    then have "\<exists>r. mergeTranscripts toLowerCase chunks chunkDurations = Inr r \<and>
        transcript r = fst (merge_loop chunks chunkDurations 0 ([], 0))"
      by (simp add: mergeTranscripts_def Let_def)
    with loop l show ?thesis by auto
  qed
  have shifted: "wellFormedTimestamp
           (adjustTimestamp (timestamp segment) (sum_list (take k chunkDurations))) \<and>
         timestampSeconds
           (adjustTimestamp (timestamp segment) (sum_list (take k chunkDurations))) =
           timestampSeconds (timestamp segment) + sum_list (take k secs)"
    if "chunkDurations = map real secs" and wf: "wellFormedTimestamp (timestamp segment)"
      and b: "timestampSeconds (timestamp segment) + sum_list (take k secs) < 2 ^ 53"
    for secs k segment
  proof -
    have "sum_list (take k chunkDurations) = real (sum_list (take k secs))"
      using that(1) by (simp add: take_map sum_list_real)
    then show ?thesis
      by (simp add: adjustTimestamp_wellFormed [OF wf b] wellFormed_formatTimestamp
            timestampSeconds_formatTimestamp)
  qed
  have "adjustTimestamp (js ''00:05'') (real 0) = formatTimestamp (5 + 0)"
    by (rule adjustTimestamp_five) simp
  then have a0: "adjustTimestamp (js ''00:05'') 0 = js ''00:05''"
    by (simp add: js_def formatTimestamp_def decimal.simps digitChar_def padStart_def)
  have "adjustTimestamp (js ''00:05'') (real 600) = formatTimestamp (5 + 600)"
    by (rule adjustTimestamp_five) simp
  then have a1: "adjustTimestamp (js ''00:05'') 600 = js ''10:05''"
    by (simp add: js_def formatTimestamp_def decimal.simps digitChar_def padStart_def)
  have "adjustTimestamp (js ''00:05'') (real 1200) = formatTimestamp (5 + 1200)"
    by (rule adjustTimestamp_five) simp
  then have a2: "adjustTimestamp (js ''00:05'') 1200 = js ''20:05''"
    by (simp add: js_def formatTimestamp_def decimal.simps digitChar_def padStart_def)
  have example: "\<exists>r. mergeTranscripts toLowerCase [ca, cb, cc] [600, 600, 300] = Inr r \<and>
         map timestamp (transcript r) = [js ''00:05'', js ''10:05'', js ''20:05'']"
    if "transcript ca = [ea]" "transcript cb = [eb]" "transcript cc = [ec]"
       "timestamp ea = js ''00:05''" "timestamp eb = js ''00:05''" "timestamp ec = js ''00:05''"
    using that by (simp add: mergeTranscripts_def Let_def a0 a1 a2)
  from general shifted example show ?thesis by blast
qed

theorem mergeTranscripts_cumulative_offsets_witness:
  "(\<exists>r. mergeTranscripts lowerCaseUnits
          [\<lparr>metadata = \<lparr>title = js ''Talk'', speakerName = js ''Ana'', category = js ''Professional'',
                        language = js ''English'', tags = [js ''a''], summary = js ''One''\<rparr>,
            transcript = [\<lparr>timestamp = js ''00:05'', speaker = js ''Ana'', text_of = js ''first'',
                            tone = js ''calm'', intent = js ''inform''\<rparr>]\<rparr>,
           \<lparr>metadata = \<lparr>title = js ''Talk'', speakerName = js ''Ana'', category = js ''Professional'',
                        language = js ''English'', tags = [js ''b''], summary = js ''Two''\<rparr>,
            transcript = [\<lparr>timestamp = js ''00:05'', speaker = js ''Ana'', text_of = js ''second'',
                            tone = js ''calm'', intent = js ''inform''\<rparr>]\<rparr>,
           \<lparr>metadata = \<lparr>title = js ''Talk'', speakerName = js ''Ana'', category = js ''Professional'',
                        language = js ''English'', tags = [js ''c''], summary = js ''Three''\<rparr>,
            transcript = [\<lparr>timestamp = js ''00:05'', speaker = js ''Ana'', text_of = js ''third'',
                            tone = js ''calm'', intent = js ''inform''\<rparr>]\<rparr>]
          [600, 600, 300] = Inr r \<and>
        map timestamp (transcript r) = [js ''00:05'', js ''10:05'', js ''20:05''] \<and>
        length (transcript r) = 3) \<and>
   wellFormedTimestamp (js ''00:05'') \<and>
   timestampSeconds (js ''00:05'') + sum_list (take 2 [600, 600, 300]) < 2 ^ 53 \<and>
   wellFormedTimestamp (adjustTimestamp (js ''00:05'') 1200) \<and>
   timestampSeconds (adjustTimestamp (js ''00:05'') 1200) = timestampSeconds (js ''00:05'') + 1200"
proof -
  let ?e1 = "\<lparr>timestamp = js ''00:05'', speaker = js ''Ana'', text_of = js ''first'',
               tone = js ''calm'', intent = js ''inform''\<rparr>"
  let ?e2 = "\<lparr>timestamp = js ''00:05'', speaker = js ''Ana'', text_of = js ''second'',
               tone = js ''calm'', intent = js ''inform''\<rparr>"
  let ?e3 = "\<lparr>timestamp = js ''00:05'', speaker = js ''Ana'', text_of = js ''third'',
               tone = js ''calm'', intent = js ''inform''\<rparr>"
  let ?c1 = "\<lparr>metadata = \<lparr>title = js ''Talk'', speakerName = js ''Ana'', category = js ''Professional'',
                 language = js ''English'', tags = [js ''a''], summary = js ''One''\<rparr>,
               transcript = [?e1]\<rparr>"
  let ?c2 = "\<lparr>metadata = \<lparr>title = js ''Talk'', speakerName = js ''Ana'', category = js ''Professional'',
                 language = js ''English'', tags = [js ''b''], summary = js ''Two''\<rparr>,
               transcript = [?e2]\<rparr>"
  let ?c3 = "\<lparr>metadata = \<lparr>title = js ''Talk'', speakerName = js ''Ana'', category = js ''Professional'',
                 language = js ''English'', tags = [js ''c''], summary = js ''Three''\<rparr>,
               transcript = [?e3]\<rparr>"
  let ?durs = "[600, 600, 300] :: real list"
  note inst = mergeTranscripts_cumulative_offsets
    [where toLowerCase = lowerCaseUnits and chunks = "[?c1, ?c2, ?c3]" and chunkDurations = ?durs
       and ca = ?c1 and cb = ?c2 and cc = ?c3 and ea = ?e1 and eb = ?e2 and ec = ?e3]
  have hyp: "[?c1, ?c2, ?c3] \<noteq> [] \<and> length ?durs = length [?c1, ?c2, ?c3]"
    by simp
  have wf: "wellFormedTimestamp (js ''00:05'')"
    by (simp add: wellFormedTimestamp_def js_def isDigit_def decimalValue_def digitValue_def)
  have "timestampSeconds (js ''00:05'') = 5"
    by (simp add: timestampSeconds_def js_def decimalValue_def digitValue_def)
  then have bound: "timestampSeconds (js ''00:05'') + sum_list (take 2 [600, 600, 300]) < 2 ^ 53"
    by simp
  have whole: "?durs = map real [600, 600, 300]" by simp
  note general = inst [THEN conjunct1, THEN mp, OF hyp]
  note example = inst [THEN conjunct2]
  from general [THEN conjunct1] obtain r where r: "mergeTranscripts lowerCaseUnits [?c1, ?c2, ?c3] ?durs = Inr r"
    and len: "length (transcript r) = sum_list (map (\<lambda>c. length (transcript c)) [?c1, ?c2, ?c3])"
    by (elim exE conjE)
  from example have "\<exists>r'. mergeTranscripts lowerCaseUnits [?c1, ?c2, ?c3] ?durs = Inr r' \<and>
      map timestamp (transcript r') = [js ''00:05'', js ''10:05'', js ''20:05'']"
    by simp
  with r have ts: "map timestamp (transcript r) = [js ''00:05'', js ''10:05'', js ''20:05'']"
    by simp
  note whole_seconds = general [THEN conjunct2, THEN conjunct2, rule_format,
    where secs = "[600, 600, 300]" and k = 2 and segment = ?e3]
  have side: "?durs = map real [600, 600, 300] \<and> 2 < length [?c1, ?c2, ?c3] \<and>
         ?e3 \<in> set (transcript ([?c1, ?c2, ?c3] ! 2)) \<and> wellFormedTimestamp (timestamp ?e3) \<and>
         timestampSeconds (timestamp ?e3) + sum_list (take 2 [600, 600, 300]) < 2 ^ 53"
    using wf bound by simp
  from whole_seconds [OF side]
  have shifted: "wellFormedTimestamp (adjustTimestamp (js ''00:05'') 1200) \<and>
      timestampSeconds (adjustTimestamp (js ''00:05'') 1200) = timestampSeconds (js ''00:05'') + 1200"
    by (simp add: numeral_2_eq_2)
  from r ts len wf bound shifted show ?thesis by simp
qed

text \<open>
  C1, as the specification states it, has every timestamp increased by exactly the sum of
  the durations before its result. The fields of a timestamp are read into doubles: in a
  single result, at offset 0, the well-formed timestamp \<open>9007199254740993:00\<close> is merged as
  \<open>9007199254740992:00\<close>, sixty seconds earlier.
\<close>

theorem mergeTranscripts_offset_counterexample:
  "wellFormedTimestamp (js ''9007199254740993:00'') \<and>
   (\<exists>r. mergeTranscripts lowerCaseUnits
          [\<lparr>metadata = \<lparr>title = js ''Talk'', speakerName = js ''Ana'',
                        category = js ''Professional'', language = js ''English'',
                        tags = [js ''a''], summary = js ''One''\<rparr>,
            transcript = [\<lparr>timestamp = js ''9007199254740993:00'', speaker = js ''Ana'',
                            text_of = js ''first'', tone = js ''calm'',
                            intent = js ''inform''\<rparr>]\<rparr>]
          [600] = Inr r \<and>
        map timestamp (transcript r) = [js ''9007199254740992:00'']) \<and>
   timestampSeconds (js ''9007199254740992:00'') + 60 =
     timestampSeconds (js ''9007199254740993:00'') + 0"
proof -
  have a: "timestampSeconds (js ''9007199254740992:00'') = 540431955284459520"
    by (simp add: timestampSeconds_def js_def decimalValue_def digitValue_def)
  have b: "timestampSeconds (js ''9007199254740993:00'') = 540431955284459580"
    by (simp add: timestampSeconds_def js_def decimalValue_def digitValue_def)
  show ?thesis
    using adjustTimestamp_rounds
    by (simp add: mergeTranscripts_def Let_def a b)
qed


section \<open>The segment plan\<close>

lemma chunk_loop_map:
  "\<forall>p. notify onProgress p = Returns \<Longrightarrow>
   chunk_loop f onProgress cs dur chunkCount i chunks =
   Inr (chunks @ map (\<lambda>k. \<lparr>blob = f, startTime = real k * cs,
                        endTime = min (real (k + 1) * cs) dur, index = k,
                        duration = min (real (k + 1) * cs) dur - real k * cs\<rparr>)
              [i..<nat chunkCount])"
proof (induction f onProgress cs dur chunkCount i chunks rule: chunk_loop.induct)
  case (1 f onProgress cs dur chunkCount i chunks)
  let ?mk = "\<lambda>k. \<lparr>blob = f, startTime = real k * cs,
                        endTime = min (real (k + 1) * cs) dur, index = k,
                        duration = min (real (k + 1) * cs) dur - real k * cs\<rparr>"
  show ?case
  proof (cases "int i < chunkCount")
    case True
    then have "i < nat chunkCount" by simp
    then have u: "[i..<nat chunkCount] = i # [i + 1..<nat chunkCount]"
      by (simp add: upt_conv_Cons)
    have step: "chunk_loop f onProgress cs dur chunkCount i chunks =
                chunk_loop f onProgress cs dur chunkCount (i + 1) (chunks @ [?mk i])"
      using True "1.prems" by (subst chunk_loop.simps) (simp add: Let_def)
    have ih: "chunk_loop f onProgress cs dur chunkCount (i + 1) (chunks @ [?mk i]) =
              Inr ((chunks @ [?mk i]) @ map ?mk [i + 1..<nat chunkCount])"
      by (rule "1.IH" [OF True refl refl _ refl "1.prems"]) (simp add: "1.prems")
    show ?thesis
      unfolding step ih u by simp
  next
    case False
    then have "[i..<nat chunkCount] = []" by simp
    with False show ?thesis
      by (subst chunk_loop.simps) simp
  qed
qed

lemma below_ceiling: "0 < cs \<Longrightarrow> i < nat \<lceil>D / cs\<rceil> \<Longrightarrow> real i * cs < D"
proof -
  assume cs: "0 < cs" and "i < nat \<lceil>D / cs\<rceil>"
  then have "int i < \<lceil>D / cs\<rceil>" by simp
  then have "real_of_int (int i) < D / cs" by (simp only: less_ceiling_iff)
  then have "real i < D / cs" by simp
  with cs show ?thesis by (simp add: pos_less_divide_eq)
qed

lemma ceiling_covers: "0 < cs \<Longrightarrow> 0 \<le> D \<Longrightarrow> D \<le> real (nat \<lceil>D / cs\<rceil>) * cs"
proof -
  assume cs: "0 < cs" and D: "0 \<le> D"
  then have "0 \<le> D / cs" by simp
  then have "0 \<le> \<lceil>D / cs\<rceil>" by (simp add: ceiling_le_iff order_trans [OF _ le_of_int_ceiling])
  then have "real (nat \<lceil>D / cs\<rceil>) = of_int \<lceil>D / cs\<rceil>" by simp
  moreover have "D / cs \<le> of_int \<lceil>D / cs\<rceil>" by (rule le_of_int_ceiling)
  ultimately have "D / cs \<le> real (nat \<lceil>D / cs\<rceil>)" by simp
  with cs show ?thesis by (simp add: pos_divide_le_eq)
qed

lemma splitVideoIntoChunks_plan:
  assumes "video_duration f = Some D" and "video_loads f" and "0 < L"
    and "\<forall>p. notify onProgress p = Returns"
  shows "splitVideoIntoChunks f L onProgress =
    Some (Inr (map (\<lambda>k. \<lparr>blob = f, startTime = real k * (L * 60),
                        endTime = min (real (k + 1) * (L * 60)) D, index = k,
                        duration = min (real (k + 1) * (L * 60)) D - real k * (L * 60)\<rparr>)
              [0..<nat \<lceil>D / (L * 60)\<rceil>]))"
  using assms(1,2,3)
  by (simp add: splitVideoIntoChunks_def getVideoDuration_def Let_def chunk_loop_map [OF assms(4)])

text \<open>
  C2. For a file whose duration \<open>D\<close> \<open>\<ge>\<close> 0 is reported and whose video loads, a chunk length
  of \<open>L\<close> > 0 minutes, and a progress callback that is absent or never throws,
  \<open>splitVideoIntoChunks\<close> returns \<open>\<lceil>D / (L * 60)\<rceil>\<close> chunks. Chunk \<open>i\<close> has
  index \<open>i\<close>, starts at \<open>i * L * 60\<close>, ends at the smaller of \<open>(i + 1) * L * 60\<close> and \<open>D\<close>, and
  has the difference as its duration, which is positive; each chunk ends where the
  next one starts; the half-open intervals of the chunks cover exactly the times from 0
  up to \<open>D\<close>; and when \<open>D\<close> > 0 the first chunk starts at 0 and the last one ends at \<open>D\<close>. (For
  \<open>D\<close> = 0 the ceiling is 0 and no chunk is returned.)
\<close>

theorem splitVideoIntoChunks_segments:
  assumes "video_duration f = Some D" and "video_loads f" and "0 \<le> D" and "0 < L"
    and "\<forall>p. notify onProgress p = Returns"
  shows "\<exists>segs. splitVideoIntoChunks f L onProgress = Some (Inr segs) \<and>
     int (length segs) = \<lceil>D / (L * 60)\<rceil> \<and>
     (\<forall>i<length segs.
        index (segs ! i) = i \<and>
        startTime (segs ! i) = real i * (L * 60) \<and>
        endTime (segs ! i) = min (real (i + 1) * (L * 60)) D \<and>
        duration (segs ! i) = endTime (segs ! i) - startTime (segs ! i) \<and>
        startTime (segs ! i) < endTime (segs ! i) \<and>
        (i + 1 < length segs \<longrightarrow> endTime (segs ! i) = startTime (segs ! (i + 1)))) \<and>
     (\<forall>t. (0 \<le> t \<and> t < D) = (\<exists>i<length segs. startTime (segs ! i) \<le> t \<and> t < endTime (segs ! i))) \<and>
     (0 < D \<longrightarrow> segs \<noteq> [] \<and> startTime (hd segs) = 0 \<and> endTime (last segs) = D) \<and>
     (D = 0 \<longrightarrow> segs = [])"
proof -
  let ?cs = "L * 60"
  let ?n = "nat \<lceil>D / ?cs\<rceil>"
  let ?mk = "\<lambda>k. \<lparr>blob = f, startTime = real k * ?cs,
                        endTime = min (real (k + 1) * ?cs) D, index = k,
                        duration = min (real (k + 1) * ?cs) D - real k * ?cs\<rparr>"
  let ?segs = "map ?mk [0..<?n]"
  have cs: "0 < ?cs" using assms(4) by simp
  have plan: "splitVideoIntoChunks f L onProgress = Some (Inr ?segs)"
    using assms(1,2,4,5) by (rule splitVideoIntoChunks_plan)
  have nonneg: "0 \<le> \<lceil>D / ?cs\<rceil>"
  proof -
    have "0 \<le> D / ?cs" using cs assms(3) by simp
    then show ?thesis by (simp add: order_trans [OF _ le_of_int_ceiling])
  qed
  have count: "int (length ?segs) = \<lceil>D / ?cs\<rceil>"
    using nonneg by simp
  have nth: "?segs ! i = ?mk i" if "i < ?n" for i
    using that by simp
  have below: "real i * ?cs < D" if "i < ?n" for i
    using cs that by (rule below_ceiling)
  have positive: "real i * ?cs < min (real (i + 1) * ?cs) D" if "i < ?n" for i
    using below [OF that] cs by (simp add: algebra_simps)
  have contiguous: "min (real (i + 1) * ?cs) D = real (i + 1) * ?cs" if "i + 1 < ?n" for i
    using below [OF that] by simp
  have each: "\<forall>i<length ?segs.
        index (?segs ! i) = i \<and>
        startTime (?segs ! i) = real i * ?cs \<and>
        endTime (?segs ! i) = min (real (i + 1) * ?cs) D \<and>
        duration (?segs ! i) = endTime (?segs ! i) - startTime (?segs ! i) \<and>
        startTime (?segs ! i) < endTime (?segs ! i) \<and>
        (i + 1 < length ?segs \<longrightarrow> endTime (?segs ! i) = startTime (?segs ! (i + 1)))"
  proof (intro allI impI)
    fix i assume "i < length ?segs"
    then have i: "i < ?n" by simp
    show "index (?segs ! i) = i \<and>
        startTime (?segs ! i) = real i * ?cs \<and>
        endTime (?segs ! i) = min (real (i + 1) * ?cs) D \<and>
        duration (?segs ! i) = endTime (?segs ! i) - startTime (?segs ! i) \<and>
        startTime (?segs ! i) < endTime (?segs ! i) \<and>
        (i + 1 < length ?segs \<longrightarrow> endTime (?segs ! i) = startTime (?segs ! (i + 1)))"
    proof (intro conjI impI)
      assume "i + 1 < length ?segs"
      then have s: "i + 1 < ?n" by simp
      show "endTime (?segs ! i) = startTime (?segs ! (i + 1))"
        unfolding nth [OF i] nth [OF s] using contiguous [OF s] by simp
    next
      show "startTime (?segs ! i) < endTime (?segs ! i)"
        unfolding nth [OF i] using positive [OF i] by simp
    qed (simp_all only: nth [OF i] VideoChunk.simps)
  qed
  have cover: "(0 \<le> t \<and> t < D) = (\<exists>i<length ?segs. startTime (?segs ! i) \<le> t \<and> t < endTime (?segs ! i))"
    for t
  proof
    assume t: "0 \<le> t \<and> t < D"
    let ?i = "nat \<lfloor>t / ?cs\<rfloor>"
    have q: "0 \<le> t / ?cs" using t cs by simp
    then have fl: "0 \<le> \<lfloor>t / ?cs\<rfloor>" by simp
    then have ri: "real ?i = of_int \<lfloor>t / ?cs\<rfloor>" by simp
    have lo: "real ?i * ?cs \<le> t"
    proof -
      have "real ?i \<le> t / ?cs" unfolding ri by (rule of_int_floor_le)
      with cs show ?thesis by (simp add: pos_le_divide_eq)
    qed
    have hi: "t < real (?i + 1) * ?cs"
    proof -
      have "t / ?cs < of_int \<lfloor>t / ?cs\<rfloor> + 1" by linarith
      moreover have "real (?i + 1) = of_int \<lfloor>t / ?cs\<rfloor> + 1" using ri by simp
      ultimately have "t / ?cs < real (?i + 1)" by (simp only:)
      with cs show ?thesis by (simp add: pos_divide_less_eq)
    qed
    have "real ?i < D / ?cs"
    proof -
      from lo t have "real ?i * ?cs < D" by simp
      with cs show ?thesis by (simp add: pos_less_divide_eq)
    qed
    then have "of_int (int ?i) < D / ?cs" by (simp only: of_int_of_nat_eq)
    then have "int ?i < \<lceil>D / ?cs\<rceil>" by (simp only: less_ceiling_iff)
    then have i: "?i < ?n" by (simp only: zless_nat_eq_int_zless)
    have "startTime (?segs ! ?i) \<le> t \<and> t < endTime (?segs ! ?i)"
      unfolding nth [OF i] using lo hi t by simp
    moreover have "?i < length ?segs" using i by simp
    ultimately show "\<exists>i<length ?segs. startTime (?segs ! i) \<le> t \<and> t < endTime (?segs ! i)"
      by blast
  next
    assume "\<exists>i<length ?segs. startTime (?segs ! i) \<le> t \<and> t < endTime (?segs ! i)"
    then obtain i where "i < length ?segs"
      and b: "startTime (?segs ! i) \<le> t \<and> t < endTime (?segs ! i)"
      by blast
    then have i: "i < ?n" by simp
    from b have lo: "real i * ?cs \<le> t" and hi: "t < min (real (i + 1) * ?cs) D"
      unfolding nth [OF i] by simp_all
    have "0 \<le> real i * ?cs"
      using cs by (intro mult_nonneg_nonneg) simp_all
    with lo have "0 \<le> t" by linarith
    moreover from hi have "t < D" by simp
    ultimately show "0 \<le> t \<and> t < D" by blast
  qed
  have ends: "?segs \<noteq> [] \<and> startTime (hd ?segs) = 0 \<and> endTime (last ?segs) = D" if "0 < D"
  proof -
    have "0 < D / ?cs" using that cs by simp
    then have "0 < \<lceil>D / ?cs\<rceil>" by (simp add: less_ceiling_iff)
    then have n: "0 < ?n" by simp
    then have ne: "?segs \<noteq> []" by simp
    have h: "hd ?segs = ?mk 0"
      using n by (simp add: hd_map upt_conv_Cons)
    have "last ?segs = ?segs ! (?n - 1)"
      using ne by (simp add: last_conv_nth)
    also have "\<dots> = ?mk (?n - 1)"
      using n by (intro nth) simp
    finally have l: "last ?segs = ?mk (?n - 1)" .
    have "D \<le> real ?n * ?cs"
      using cs assms(3) by (rule ceiling_covers)
    moreover have "real (?n - 1 + 1) = real ?n" using n by simp
    ultimately have "min (real (?n - 1 + 1) * ?cs) D = D" by simp
    with ne h l show ?thesis by simp
  qed
  have none: "?segs = []" if "D = 0"
    using that by simp
  from plan count each cover ends none show ?thesis by blast
qed

theorem splitVideoIntoChunks_segments_witness:
  "video_duration \<lparr>file_size = 209715200, file_type = js ''video/mp4'',
       video_duration = Some 1500.5, video_loads = True, data_url = None\<rparr> = Some 1500.5 \<and>
   video_loads \<lparr>file_size = 209715200, file_type = js ''video/mp4'',
       video_duration = Some 1500.5, video_loads = True, data_url = None\<rparr> \<and>
   (0::real) \<le> 1500.5 \<and> (0::real) < 10 \<and>
   (\<forall>p. notify (Some (\<lambda>p. Returns)) p = Returns) \<and>
   (\<exists>segs. splitVideoIntoChunks \<lparr>file_size = 209715200, file_type = js ''video/mp4'',
       video_duration = Some 1500.5, video_loads = True, data_url = None\<rparr> 10
        (Some (\<lambda>p. Returns)) = Some (Inr segs) \<and>
     length segs = 3 \<and>
     map (\<lambda>c. (index c, startTime c, endTime c, duration c)) segs =
       [(0, 0, 600, 600), (1, 600, 1200, 600), (2, 1200, 1500.5, 300.5)] \<and>
     startTime (hd segs) = 0 \<and> endTime (last segs) = 1500.5)"
proof -
  let ?f = "\<lparr>file_size = 209715200, file_type = js ''video/mp4'',
       video_duration = Some 1500.5, video_loads = True, data_url = None\<rparr>"
  have h1: "video_duration ?f = Some 1500.5" by simp
  have h2: "video_loads ?f" by simp
  have h3: "(0::real) \<le> 1500.5" by simp
  have h4: "(0::real) < 10" by simp
  have h5: "\<forall>p. notify (Some (\<lambda>p. Returns)) p = Returns"
    by (simp add: notify_def)
  from splitVideoIntoChunks_segments [OF h1 h2 h3 h4 h5]
  obtain segs where run: "splitVideoIntoChunks ?f 10 (Some (\<lambda>p. Returns)) = Some (Inr segs)"
    and count: "int (length segs) = \<lceil>1500.5 / (10 * 60 :: real)\<rceil>"
    and ends: "0 < (1500.5::real) \<longrightarrow>
                 segs \<noteq> [] \<and> startTime (hd segs) = 0 \<and> endTime (last segs) = 1500.5"
    by (elim exE conjE)
  have "\<lceil>1500.5 / (10 * 60 :: real)\<rceil> = 3" by simp
  with count have three: "length segs = 3" by simp
  from ends have first_last: "startTime (hd segs) = 0 \<and> endTime (last segs) = 1500.5" by simp
  have c: "\<lceil>1500.5 / (10 * 60 :: real)\<rceil> = 3" by simp
  have u: "[0..<nat 3] = [0, 1, 2]" by (simp add: upt_rec)
  have "splitVideoIntoChunks ?f 10 (Some (\<lambda>p. Returns)) =
    Some (Inr (map (\<lambda>k. \<lparr>blob = ?f, startTime = real k * (10 * 60),
                        endTime = min (real (k + 1) * (10 * 60)) 1500.5, index = k,
                        duration = min (real (k + 1) * (10 * 60)) 1500.5 - real k * (10 * 60)\<rparr>)
              [0..<nat \<lceil>1500.5 / (10 * 60 :: real)\<rceil>]))"
    by (rule splitVideoIntoChunks_plan) (simp_all add: notify_def)
  then have "splitVideoIntoChunks ?f 10 (Some (\<lambda>p. Returns)) =
    Some (Inr [\<lparr>blob = ?f, startTime = 0, endTime = 600, index = 0, duration = 600\<rparr>,
               \<lparr>blob = ?f, startTime = 600, endTime = 1200, index = 1, duration = 600\<rparr>,
               \<lparr>blob = ?f, startTime = 1200, endTime = 1500.5, index = 2, duration = 300.5\<rparr>])"
    unfolding c u by simp
  with run have m: "map (\<lambda>c. (index c, startTime c, endTime c, duration c)) segs =
       [(0, 0, 600, 600), (1, 600, 1200, 600), (2, 1200, 1500.5, 300.5)]"
    by auto
  from first_last have fst_seg: "startTime (hd segs) = 0" and lst_seg: "endTime (last segs) = 1500.5"
    by simp_all
  have "splitVideoIntoChunks ?f 10 (Some (\<lambda>p. Returns)) = Some (Inr segs) \<and>
     length segs = 3 \<and>
     map (\<lambda>c. (index c, startTime c, endTime c, duration c)) segs =
       [(0, 0, 600, 600), (1, 600, 1200, 600), (2, 1200, 1500.5, 300.5)] \<and>
     startTime (hd segs) = 0 \<and> endTime (last segs) = 1500.5"
    by (intro conjI) (rule run three m fst_seg lst_seg)+
  then have ex: "\<exists>segs. splitVideoIntoChunks ?f 10 (Some (\<lambda>p. Returns)) = Some (Inr segs) \<and>
     length segs = 3 \<and>
     map (\<lambda>c. (index c, startTime c, endTime c, duration c)) segs =
       [(0, 0, 600, 600), (1, 600, 1200, 600), (2, 1200, 1500.5, 300.5)] \<and>
     startTime (hd segs) = 0 \<and> endTime (last segs) = 1500.5"
    by (rule exI)
  show ?thesis
    by (intro conjI) (rule h1 h2 h3 h4 h5 ex)+
qed


section \<open>The dispatch loop\<close>

lemma concat_singletons: "(\<And>k. k \<in> set ks \<Longrightarrow> E k = [g k]) \<Longrightarrow> concat (map E ks) = map g ks"
  by (induction ks) simp_all

lemma concat_at_least:
  "(\<And>k. k \<in> set ks \<Longrightarrow> 1 \<le> length (E k)) \<Longrightarrow> length ks \<le> length (concat (map E ks))"
proof (induction ks)
  case Nil
  then show ?case by simp
next
  case (Cons k ks)
  have "1 \<le> length (E k)" using Cons.prems by simp
  moreover have "length ks \<le> length (concat (map E ks))"
    using Cons.prems by (intro Cons.IH) simp
  ultimately show ?case by simp
qed

lemma concat_longer:
  "(\<And>k. k \<in> set ks \<Longrightarrow> 1 \<le> length (E k)) \<Longrightarrow> i \<in> set ks \<Longrightarrow> 2 \<le> length (E i) \<Longrightarrow>
   length ks < length (concat (map E ks))"
proof (induction ks)
  case Nil
  then show ?case by simp
next
  case (Cons k ks)
  have all: "length ks \<le> length (concat (map E ks))"
    using Cons.prems(1) by (intro concat_at_least) simp
  have k1: "1 \<le> length (E k)" using Cons.prems(1) by simp
  show ?case
  proof (cases "i = k")
    case True
    with Cons.prems(3) all show ?thesis by simp
  next
    case False
    with Cons.prems have "i \<in> set ks" by simp
    then have "length ks < length (concat (map E ks))"
      using Cons.prems by (intro Cons.IH) simp_all
    with k1 show ?thesis by simp
  qed
qed

lemma dispatch_loop_entries:
  "\<forall>p. notify (onChunkProgress options) p = Returns \<Longrightarrow>
   dispatch_loop env service options f um chunks i (chunkResults, chunkDurations) =
   Inr (chunkResults @
          concat (map (\<lambda>k. case process_chunk env service f um (length chunks) k (chunks ! k) of
                             Inl e \<Rightarrow> [failed_chunk um k]
                           | Inr result \<Rightarrow>
                               (case notify (onChunkComplete options) (k + 1, length chunks) of
                                  Returns \<Rightarrow> [result]
                                | Throws \<Rightarrow> [result, failed_chunk um k]))
                    [i..<length chunks]),
        chunkDurations @
          concat (map (\<lambda>k. case process_chunk env service f um (length chunks) k (chunks ! k) of
                             Inl e \<Rightarrow> [duration (chunks ! k)]
                           | Inr result \<Rightarrow>
                               (case notify (onChunkComplete options) (k + 1, length chunks) of
                                  Returns \<Rightarrow> [duration (chunks ! k)]
                                | Throws \<Rightarrow> [duration (chunks ! k), duration (chunks ! k)]))
                    [i..<length chunks]))"
proof (induction env service options f um chunks i "(chunkResults, chunkDurations)"
    arbitrary: chunkResults chunkDurations rule: dispatch_loop.induct)
  case (1 env service options f um chunks i chunkResults chunkDurations)
  note quiet = "1.prems"
  have progress: "notify (onChunkProgress options)
      \<lparr>currentChunk = i + 1, totalChunks = length chunks,
         progress = (real (i + 1) / real (length chunks)) * 100,
         status = js ''Processing chunk '' @ decimal (i + 1) @ js '' of '' @
                  decimal (length chunks) @ js ''...''\<rparr> = Returns"
    using quiet by simp
  show ?case
  proof (cases "i < length chunks")
    case False
    then show ?thesis by (subst dispatch_loop.simps) simp
  next
    case True
    then have u: "[i..<length chunks] = i # [i + 1..<length chunks]"
      by (simp add: upt_conv_Cons)
    show ?thesis
    proof (cases "process_chunk env service f um (length chunks) i (chunks ! i)")
      case (Inl e)
      have step: "dispatch_loop env service options f um chunks i (chunkResults, chunkDurations) =
        dispatch_loop env service options f um chunks (i + 1)
          (chunkResults @ [failed_chunk um i], chunkDurations @ [duration (chunks ! i)])"
        using True Inl progress by (subst dispatch_loop.simps) (simp add: Let_def)
      have ih: "dispatch_loop env service options f um chunks (i + 1)
          (chunkResults @ [failed_chunk um i], chunkDurations @ [duration (chunks ! i)]) =
        Inr ((chunkResults @ [failed_chunk um i]) @
          concat (map (\<lambda>k. case process_chunk env service f um (length chunks) k (chunks ! k) of
                             Inl e \<Rightarrow> [failed_chunk um k]
                           | Inr result \<Rightarrow>
                               (case notify (onChunkComplete options) (k + 1, length chunks) of
                                  Returns \<Rightarrow> [result]
                                | Throws \<Rightarrow> [result, failed_chunk um k]))
                    [i + 1..<length chunks]),
        (chunkDurations @ [duration (chunks ! i)]) @
          concat (map (\<lambda>k. case process_chunk env service f um (length chunks) k (chunks ! k) of
                             Inl e \<Rightarrow> [duration (chunks ! k)]
                           | Inr result \<Rightarrow>
                               (case notify (onChunkComplete options) (k + 1, length chunks) of
                                  Returns \<Rightarrow> [duration (chunks ! k)]
                                | Throws \<Rightarrow> [duration (chunks ! k), duration (chunks ! k)]))
                    [i + 1..<length chunks]))"
        by (rule "1.hyps"(1)) (simp_all add: True Inl progress quiet)
      show ?thesis
        unfolding step ih u using Inl by simp
    next
      case (Inr result)
      show ?thesis
      proof (cases "notify (onChunkComplete options) (i + 1, length chunks)")
        case Returns
        have step: "dispatch_loop env service options f um chunks i (chunkResults, chunkDurations) =
          dispatch_loop env service options f um chunks (i + 1)
            (chunkResults @ [result], chunkDurations @ [duration (chunks ! i)])"
          using True Inr Returns progress by (subst dispatch_loop.simps) (simp add: Let_def)
        have ih: "dispatch_loop env service options f um chunks (i + 1)
            (chunkResults @ [result], chunkDurations @ [duration (chunks ! i)]) =
          Inr ((chunkResults @ [result]) @
            concat (map (\<lambda>k. case process_chunk env service f um (length chunks) k (chunks ! k) of
                             Inl e \<Rightarrow> [failed_chunk um k]
                           | Inr result \<Rightarrow>
                               (case notify (onChunkComplete options) (k + 1, length chunks) of
                                  Returns \<Rightarrow> [result]
                                | Throws \<Rightarrow> [result, failed_chunk um k]))
                    [i + 1..<length chunks]),
          (chunkDurations @ [duration (chunks ! i)]) @
            concat (map (\<lambda>k. case process_chunk env service f um (length chunks) k (chunks ! k) of
                             Inl e \<Rightarrow> [duration (chunks ! k)]
                           | Inr result \<Rightarrow>
                               (case notify (onChunkComplete options) (k + 1, length chunks) of
                                  Returns \<Rightarrow> [duration (chunks ! k)]
                                | Throws \<Rightarrow> [duration (chunks ! k), duration (chunks ! k)]))
                    [i + 1..<length chunks]))"
          by (rule "1.hyps"(2)) (simp_all add: True Inr Returns [simplified] progress quiet)
        show ?thesis
          unfolding step ih u using Inr Returns by simp
      next
        case Throws
        have step: "dispatch_loop env service options f um chunks i (chunkResults, chunkDurations) =
          dispatch_loop env service options f um chunks (i + 1)
            (chunkResults @ [result] @ [failed_chunk um i],
             chunkDurations @ [duration (chunks ! i)] @ [duration (chunks ! i)])"
          using True Inr Throws progress by (subst dispatch_loop.simps) (simp add: Let_def)
        have ih: "dispatch_loop env service options f um chunks (i + 1)
            (chunkResults @ [result] @ [failed_chunk um i],
             chunkDurations @ [duration (chunks ! i)] @ [duration (chunks ! i)]) =
          Inr ((chunkResults @ [result] @ [failed_chunk um i]) @
            concat (map (\<lambda>k. case process_chunk env service f um (length chunks) k (chunks ! k) of
                             Inl e \<Rightarrow> [failed_chunk um k]
                           | Inr result \<Rightarrow>
                               (case notify (onChunkComplete options) (k + 1, length chunks) of
                                  Returns \<Rightarrow> [result]
                                | Throws \<Rightarrow> [result, failed_chunk um k]))
                    [i + 1..<length chunks]),
          (chunkDurations @ [duration (chunks ! i)] @ [duration (chunks ! i)]) @
            concat (map (\<lambda>k. case process_chunk env service f um (length chunks) k (chunks ! k) of
                             Inl e \<Rightarrow> [duration (chunks ! k)]
                           | Inr result \<Rightarrow>
                               (case notify (onChunkComplete options) (k + 1, length chunks) of
                                  Returns \<Rightarrow> [duration (chunks ! k)]
                                | Throws \<Rightarrow> [duration (chunks ! k), duration (chunks ! k)]))
                    [i + 1..<length chunks]))"
          by (rule "1.hyps"(3)) (simp_all add: True Inr Throws [simplified] progress quiet)
        show ?thesis
          unfolding step ih u using Inr Throws by simp
      qed
    qed
  qed
qed

text \<open>
  C4, as the code has it. When the progress callback is absent or never throws, the
  dispatch loop runs over all chunks, whichever adapter calls fail, and the durations it
  records are as many as the results. A chunk whose adapter call fails contributes the
  placeholder that keeps the caller's title, speaker and category, has the language
  \<open>Unknown\<close>, no tags, the summary \<open>Chunk i+1 processing failed\<close> and an empty transcript,
  with the chunk's duration. A chunk whose call succeeds contributes the adapter's
  result with the chunk's duration and, when the completion callback throws for it, the
  placeholder and the duration once more. So the loop ends with one result and one duration
  for every chunk, in the order of the chunks, when the completion callback returns for
  every chunk; a completion callback that throws for a chunk that succeeded leaves more
  results and durations than chunks. The progress callback is called before the \<open>try\<close>: when
  it throws for the first chunk the loop ends there with its error.
\<close>

theorem dispatch_loop_entries_per_segment:
  "((\<forall>p. notify (onChunkProgress options) p = Returns) \<longrightarrow>
   (\<exists>chunkResults chunkDurations.
     dispatch_loop env service options f um chunks 0 ([], []) = Inr (chunkResults, chunkDurations) \<and>
     chunkResults =
       concat (map (\<lambda>i. case process_chunk env service f um (length chunks) i (chunks ! i) of
                          Inl e \<Rightarrow>
                            [\<lparr>metadata =
                                \<lparr>title = title um, speakerName = speakerName um,
                                 category = category um, language = js ''Unknown'', tags = [],
                                 summary = js ''Chunk '' @ decimal (i + 1) @
                                           js '' processing failed''\<rparr>,
                              transcript = []\<rparr>]
                        | Inr result \<Rightarrow>
                            (case notify (onChunkComplete options) (i + 1, length chunks) of
                               Returns \<Rightarrow> [result]
                             | Throws \<Rightarrow>
                                 [result,
                                  \<lparr>metadata =
                                     \<lparr>title = title um, speakerName = speakerName um,
                                      category = category um, language = js ''Unknown'',
                                      tags = [],
                                      summary = js ''Chunk '' @ decimal (i + 1) @
                                                js '' processing failed''\<rparr>,
                                   transcript = []\<rparr>]))
                 [0..<length chunks]) \<and>
     chunkDurations =
       concat (map (\<lambda>i. case process_chunk env service f um (length chunks) i (chunks ! i) of
                          Inl e \<Rightarrow> [duration (chunks ! i)]
                        | Inr result \<Rightarrow>
                            (case notify (onChunkComplete options) (i + 1, length chunks) of
                               Returns \<Rightarrow> [duration (chunks ! i)]
                             | Throws \<Rightarrow> [duration (chunks ! i), duration (chunks ! i)]))
                 [0..<length chunks]) \<and>
     length chunkDurations = length chunkResults \<and>
     ((\<forall>i<length chunks. notify (onChunkComplete options) (i + 1, length chunks) = Returns) \<longrightarrow>
        length chunkResults = length chunks \<and>
        chunkDurations = map duration chunks \<and>
        (\<forall>i<length chunks.
           chunkResults ! i =
             (case process_chunk env service f um (length chunks) i (chunks ! i) of
                Inr result \<Rightarrow> result
              | Inl e \<Rightarrow>
                  \<lparr>metadata =
                     \<lparr>title = title um, speakerName = speakerName um, category = category um,
                      language = js ''Unknown'', tags = [],
                      summary = js ''Chunk '' @ decimal (i + 1) @ js '' processing failed''\<rparr>,
                   transcript = []\<rparr>))) \<and>
     ((\<exists>i<length chunks. \<exists>result.
          process_chunk env service f um (length chunks) i (chunks ! i) = Inr result \<and>
          notify (onChunkComplete options) (i + 1, length chunks) = Throws) \<longrightarrow>
        length chunks < length chunkResults \<and> length chunks < length chunkDurations))) \<and>
   (chunks \<noteq> [] \<and>
    notify (onChunkProgress options)
      \<lparr>currentChunk = 1, totalChunks = length chunks,
         progress = (1 / real (length chunks)) * 100,
         status = js ''Processing chunk '' @ decimal 1 @ js '' of '' @
                  decimal (length chunks) @ js ''...''\<rparr> = Throws \<longrightarrow>
      dispatch_loop env service options f um chunks 0 ([], []) = Inl CallbackError)"
proof (intro conjI impI)
  assume "chunks \<noteq> [] \<and>
    notify (onChunkProgress options)
      \<lparr>currentChunk = 1, totalChunks = length chunks,
         progress = (1 / real (length chunks)) * 100,
         status = js ''Processing chunk '' @ decimal 1 @ js '' of '' @
                  decimal (length chunks) @ js ''...''\<rparr> = Throws"
  then show "dispatch_loop env service options f um chunks 0 ([], []) = Inl CallbackError"
    by (subst dispatch_loop.simps) simp
next
  assume quiet: "\<forall>p. notify (onChunkProgress options) p = Returns"
  let ?n = "length chunks"
  let ?E = "\<lambda>i. case process_chunk env service f um ?n i (chunks ! i) of
                          Inl e \<Rightarrow> [failed_chunk um i]
                        | Inr result \<Rightarrow>
                            (case notify (onChunkComplete options) (i + 1, ?n) of
                               Returns \<Rightarrow> [result]
                             | Throws \<Rightarrow> [result, failed_chunk um i])"
  let ?D = "\<lambda>i. case process_chunk env service f um ?n i (chunks ! i) of
                          Inl e \<Rightarrow> [duration (chunks ! i)]
                        | Inr result \<Rightarrow>
                            (case notify (onChunkComplete options) (i + 1, ?n) of
                               Returns \<Rightarrow> [duration (chunks ! i)]
                             | Throws \<Rightarrow> [duration (chunks ! i), duration (chunks ! i)])"
  let ?g = "\<lambda>i. case process_chunk env service f um ?n i (chunks ! i) of
                Inr result \<Rightarrow> result
              | Inl e \<Rightarrow> failed_chunk um i"
  let ?results = "concat (map ?E [0..<?n])"
  let ?durations = "concat (map ?D [0..<?n])"
  have run: "dispatch_loop env service options f um chunks 0 ([], []) = Inr (?results, ?durations)"
    using dispatch_loop_entries [OF quiet, of env service f um chunks 0 "[]" "[]"] by simp
  have lenED: "length (?D i) = length (?E i)" for i
    by (simp split: sum.split outcome.split)
  have same: "length ?durations = length ?results"
    by (simp add: length_concat o_def lenED)
  have one: "length ?results = ?n \<and> ?durations = map duration chunks \<and>
      (\<forall>i<?n. ?results ! i = ?g i)"
    if returns: "\<forall>i<?n. notify (onChunkComplete options) (i + 1, ?n) = Returns"
  proof -
    have "concat (map ?E [0..<?n]) = map ?g [0..<?n]"
    proof (rule concat_singletons)
      fix k assume "k \<in> set [0..<?n]"
      then show "?E k = [?g k]" using returns by (simp split: sum.split)
    qed
    then have r: "?results = map ?g [0..<?n]" .
    have "concat (map ?D [0..<?n]) = map (\<lambda>i. duration (chunks ! i)) [0..<?n]"
    proof (rule concat_singletons)
      fix k assume "k \<in> set [0..<?n]"
      then show "?D k = [duration (chunks ! k)]" using returns by (simp split: sum.split)
    qed
    also have "\<dots> = map duration chunks" by (rule map_nth_upt)
    finally have d: "?durations = map duration chunks" .
    show ?thesis unfolding r d by (simp split: sum.split)
  qed
  have more: "?n < length ?results \<and> ?n < length ?durations"
    if throws: "\<exists>i<?n. \<exists>result.
          process_chunk env service f um ?n i (chunks ! i) = Inr result \<and>
          notify (onChunkComplete options) (i + 1, ?n) = Throws"
  proof -
    from throws obtain i result where i: "i < ?n"
      and ok: "process_chunk env service f um ?n i (chunks ! i) = Inr result"
      and th: "notify (onChunkComplete options) (i + 1, ?n) = Throws"
      by blast
    have "length [0..<?n] < length (concat (map ?E [0..<?n]))"
    proof (rule concat_longer)
      fix k show "1 \<le> length (?E k)" by (simp split: sum.split outcome.split)
    next
      show "i \<in> set [0..<?n]" using i by simp
    next
      show "2 \<le> length (?E i)" using ok th by simp
    qed
    then have "?n < length ?results" by simp
    with same show ?thesis by simp
  qed
  have "dispatch_loop env service options f um chunks 0 ([], []) = Inr (?results, ?durations) \<and>
     ?results = concat (map ?E [0..<?n]) \<and>
     ?durations = concat (map ?D [0..<?n]) \<and>
     length ?durations = length ?results \<and>
     ((\<forall>i<?n. notify (onChunkComplete options) (i + 1, ?n) = Returns) \<longrightarrow>
        length ?results = ?n \<and> ?durations = map duration chunks \<and>
        (\<forall>i<?n. ?results ! i = ?g i)) \<and>
     ((\<exists>i<?n. \<exists>result.
          process_chunk env service f um ?n i (chunks ! i) = Inr result \<and>
          notify (onChunkComplete options) (i + 1, ?n) = Throws) \<longrightarrow>
        ?n < length ?results \<and> ?n < length ?durations)"
    using run same one more by blast
  then show "\<exists>chunkResults chunkDurations.
     dispatch_loop env service options f um chunks 0 ([], []) = Inr (chunkResults, chunkDurations) \<and>
     chunkResults =
       concat (map (\<lambda>i. case process_chunk env service f um (length chunks) i (chunks ! i) of
                          Inl e \<Rightarrow>
                            [\<lparr>metadata =
                                \<lparr>title = title um, speakerName = speakerName um,
                                 category = category um, language = js ''Unknown'', tags = [],
                                 summary = js ''Chunk '' @ decimal (i + 1) @
                                           js '' processing failed''\<rparr>,
                              transcript = []\<rparr>]
                        | Inr result \<Rightarrow>
                            (case notify (onChunkComplete options) (i + 1, length chunks) of
                               Returns \<Rightarrow> [result]
                             | Throws \<Rightarrow>
                                 [result,
                                  \<lparr>metadata =
                                     \<lparr>title = title um, speakerName = speakerName um,
                                      category = category um, language = js ''Unknown'',
                                      tags = [],
                                      summary = js ''Chunk '' @ decimal (i + 1) @
                                                js '' processing failed''\<rparr>,
                                   transcript = []\<rparr>]))
                 [0..<length chunks]) \<and>
     chunkDurations =
       concat (map (\<lambda>i. case process_chunk env service f um (length chunks) i (chunks ! i) of
                          Inl e \<Rightarrow> [duration (chunks ! i)]
                        | Inr result \<Rightarrow>
                            (case notify (onChunkComplete options) (i + 1, length chunks) of
                               Returns \<Rightarrow> [duration (chunks ! i)]
                             | Throws \<Rightarrow> [duration (chunks ! i), duration (chunks ! i)]))
                 [0..<length chunks]) \<and>
     length chunkDurations = length chunkResults \<and>
     ((\<forall>i<length chunks. notify (onChunkComplete options) (i + 1, length chunks) = Returns) \<longrightarrow>
        length chunkResults = length chunks \<and>
        chunkDurations = map duration chunks \<and>
        (\<forall>i<length chunks.
           chunkResults ! i =
             (case process_chunk env service f um (length chunks) i (chunks ! i) of
                Inr result \<Rightarrow> result
              | Inl e \<Rightarrow>
                  \<lparr>metadata =
                     \<lparr>title = title um, speakerName = speakerName um, category = category um,
                      language = js ''Unknown'', tags = [],
                      summary = js ''Chunk '' @ decimal (i + 1) @ js '' processing failed''\<rparr>,
                   transcript = []\<rparr>))) \<and>
     ((\<exists>i<length chunks. \<exists>result.
          process_chunk env service f um (length chunks) i (chunks ! i) = Inr result \<and>
          notify (onChunkComplete options) (i + 1, length chunks) = Throws) \<longrightarrow>
        length chunks < length chunkResults \<and> length chunks < length chunkDurations)"
    unfolding failed_chunk_def by (intro exI)
qed

theorem dispatch_loop_entries_per_segment_witness:
  "(\<forall>p. notify (onChunkProgress
        \<lparr>chunkDurationMinutes = Some 10, onChunkProgress = Some (\<lambda>p. Returns),
           onChunkComplete = Some (\<lambda>p. Returns)\<rparr>) p = Returns) \<and>
   (\<forall>p. notify (onChunkComplete
        \<lparr>chunkDurationMinutes = Some 10, onChunkProgress = Some (\<lambda>p. Returns),
           onChunkComplete = Some (\<lambda>p. Returns)\<rparr>) p = Returns) \<and>
   process_chunk \<lparr>API_KEY = Some (js ''key''), GEMINI_API_KEY = None\<rparr>
     (\<lambda>key payload mime context.
        if title context = js ''Talk (Segment 2/3)'' then Inl ServiceError
        else Inr \<lparr>metadata = \<lparr>title = title context, speakerName = speakerName context,
                     category = category context, language = js ''English'',
                     tags = [js ''demo''], summary = js ''Spoken part''\<rparr>,
                   transcript = [\<lparr>timestamp = js ''00:05'', speaker = js ''Ana'',
                                   text_of = js ''Hello'', tone = js ''calm'',
                                   intent = js ''greet''\<rparr>]\<rparr>)
     \<lparr>file_size = 209715200, file_type = js ''video/mp4'', video_duration = Some 1500,
        video_loads = True, data_url = Some (js ''data:video/mp4;base64,AAAA'')\<rparr>
     \<lparr>title = js ''Talk'', speakerName = js ''Ana'', category = js ''Professional''\<rparr>
     3 1
     \<lparr>blob = \<lparr>file_size = 209715200, file_type = js ''video/mp4'', video_duration = Some 1500,
                video_loads = True, data_url = Some (js ''data:video/mp4;base64,AAAA'')\<rparr>,
        startTime = 600, endTime = 1200, index = 1, duration = 600\<rparr> = Inl ServiceError \<and>
   (\<exists>results durations.
      dispatch_loop \<lparr>API_KEY = Some (js ''key''), GEMINI_API_KEY = None\<rparr>
        (\<lambda>key payload mime context.
           if title context = js ''Talk (Segment 2/3)'' then Inl ServiceError
           else Inr \<lparr>metadata = \<lparr>title = title context, speakerName = speakerName context,
                        category = category context, language = js ''English'',
                        tags = [js ''demo''], summary = js ''Spoken part''\<rparr>,
                      transcript = [\<lparr>timestamp = js ''00:05'', speaker = js ''Ana'',
                                      text_of = js ''Hello'', tone = js ''calm'',
                                      intent = js ''greet''\<rparr>]\<rparr>)
        \<lparr>chunkDurationMinutes = Some 10, onChunkProgress = Some (\<lambda>p. Returns),
           onChunkComplete = Some (\<lambda>p. Returns)\<rparr>
        \<lparr>file_size = 209715200, file_type = js ''video/mp4'', video_duration = Some 1500,
           video_loads = True, data_url = Some (js ''data:video/mp4;base64,AAAA'')\<rparr>
        \<lparr>title = js ''Talk'', speakerName = js ''Ana'', category = js ''Professional''\<rparr>
        [\<lparr>blob = \<lparr>file_size = 209715200, file_type = js ''video/mp4'',
                   video_duration = Some 1500, video_loads = True,
                   data_url = Some (js ''data:video/mp4;base64,AAAA'')\<rparr>,
           startTime = 0, endTime = 600, index = 0, duration = 600\<rparr>,
         \<lparr>blob = \<lparr>file_size = 209715200, file_type = js ''video/mp4'',
                   video_duration = Some 1500, video_loads = True,
                   data_url = Some (js ''data:video/mp4;base64,AAAA'')\<rparr>,
           startTime = 600, endTime = 1200, index = 1, duration = 600\<rparr>,
         \<lparr>blob = \<lparr>file_size = 209715200, file_type = js ''video/mp4'',
                   video_duration = Some 1500, video_loads = True,
                   data_url = Some (js ''data:video/mp4;base64,AAAA'')\<rparr>,
           startTime = 1200, endTime = 1500, index = 2, duration = 300\<rparr>]
        0 ([], []) = Inr (results, durations) \<and>
      length results = 3 \<and>
      durations = [600, 600, 300] \<and>
      results ! 1 =
        \<lparr>metadata = \<lparr>title = js ''Talk'', speakerName = js ''Ana'',
                      category = js ''Professional'', language = js ''Unknown'', tags = [],
                      summary = js ''Chunk 2 processing failed''\<rparr>,
         transcript = []\<rparr>) \<and>
   (\<forall>p. notify (onChunkProgress
        \<lparr>chunkDurationMinutes = Some 10, onChunkProgress = Some (\<lambda>p. Returns),
           onChunkComplete = Some (\<lambda>p. Throws)\<rparr>) p = Returns) \<and>
   (\<forall>p. notify (onChunkComplete
        \<lparr>chunkDurationMinutes = Some 10, onChunkProgress = Some (\<lambda>p. Returns),
           onChunkComplete = Some (\<lambda>p. Throws)\<rparr>) p = Throws) \<and>
   (\<exists>result.
      process_chunk \<lparr>API_KEY = Some (js ''key''), GEMINI_API_KEY = None\<rparr>
        (\<lambda>key payload mime context.
           if title context = js ''Talk (Segment 2/3)'' then Inl ServiceError
           else Inr \<lparr>metadata = \<lparr>title = title context, speakerName = speakerName context,
                        category = category context, language = js ''English'',
                        tags = [js ''demo''], summary = js ''Spoken part''\<rparr>,
                      transcript = [\<lparr>timestamp = js ''00:05'', speaker = js ''Ana'',
                                      text_of = js ''Hello'', tone = js ''calm'',
                                      intent = js ''greet''\<rparr>]\<rparr>)
        \<lparr>file_size = 209715200, file_type = js ''video/mp4'', video_duration = Some 1500,
           video_loads = True, data_url = Some (js ''data:video/mp4;base64,AAAA'')\<rparr>
        \<lparr>title = js ''Talk'', speakerName = js ''Ana'', category = js ''Professional''\<rparr>
        3 0
        \<lparr>blob = \<lparr>file_size = 209715200, file_type = js ''video/mp4'',
                  video_duration = Some 1500, video_loads = True,
                  data_url = Some (js ''data:video/mp4;base64,AAAA'')\<rparr>,
           startTime = 0, endTime = 600, index = 0, duration = 600\<rparr> = Inr result) \<and>
   (\<exists>results durations.
      dispatch_loop \<lparr>API_KEY = Some (js ''key''), GEMINI_API_KEY = None\<rparr>
        (\<lambda>key payload mime context.
           if title context = js ''Talk (Segment 2/3)'' then Inl ServiceError
           else Inr \<lparr>metadata = \<lparr>title = title context, speakerName = speakerName context,
                        category = category context, language = js ''English'',
                        tags = [js ''demo''], summary = js ''Spoken part''\<rparr>,
                      transcript = [\<lparr>timestamp = js ''00:05'', speaker = js ''Ana'',
                                      text_of = js ''Hello'', tone = js ''calm'',
                                      intent = js ''greet''\<rparr>]\<rparr>)
        \<lparr>chunkDurationMinutes = Some 10, onChunkProgress = Some (\<lambda>p. Returns),
           onChunkComplete = Some (\<lambda>p. Throws)\<rparr>
        \<lparr>file_size = 209715200, file_type = js ''video/mp4'', video_duration = Some 1500,
           video_loads = True, data_url = Some (js ''data:video/mp4;base64,AAAA'')\<rparr>
        \<lparr>title = js ''Talk'', speakerName = js ''Ana'', category = js ''Professional''\<rparr>
        [\<lparr>blob = \<lparr>file_size = 209715200, file_type = js ''video/mp4'',
                   video_duration = Some 1500, video_loads = True,
                   data_url = Some (js ''data:video/mp4;base64,AAAA'')\<rparr>,
           startTime = 0, endTime = 600, index = 0, duration = 600\<rparr>,
         \<lparr>blob = \<lparr>file_size = 209715200, file_type = js ''video/mp4'',
                   video_duration = Some 1500, video_loads = True,
                   data_url = Some (js ''data:video/mp4;base64,AAAA'')\<rparr>,
           startTime = 600, endTime = 1200, index = 1, duration = 600\<rparr>,
         \<lparr>blob = \<lparr>file_size = 209715200, file_type = js ''video/mp4'',
                   video_duration = Some 1500, video_loads = True,
                   data_url = Some (js ''data:video/mp4;base64,AAAA'')\<rparr>,
           startTime = 1200, endTime = 1500, index = 2, duration = 300\<rparr>]
        0 ([], []) = Inr (results, durations) \<and>
      3 < length results \<and> 3 < length durations) \<and>
   notify (onChunkProgress
        \<lparr>chunkDurationMinutes = Some 10, onChunkProgress = Some (\<lambda>p. Throws),
           onChunkComplete = None\<rparr>)
      \<lparr>currentChunk = 1, totalChunks = 3, progress = (1 / 3) * 100,
         status = js ''Processing chunk 1 of 3...''\<rparr> = Throws \<and>
   dispatch_loop \<lparr>API_KEY = Some (js ''key''), GEMINI_API_KEY = None\<rparr>
        (\<lambda>key payload mime context.
           if title context = js ''Talk (Segment 2/3)'' then Inl ServiceError
           else Inr \<lparr>metadata = \<lparr>title = title context, speakerName = speakerName context,
                        category = category context, language = js ''English'',
                        tags = [js ''demo''], summary = js ''Spoken part''\<rparr>,
                      transcript = [\<lparr>timestamp = js ''00:05'', speaker = js ''Ana'',
                                      text_of = js ''Hello'', tone = js ''calm'',
                                      intent = js ''greet''\<rparr>]\<rparr>)
        \<lparr>chunkDurationMinutes = Some 10, onChunkProgress = Some (\<lambda>p. Throws),
           onChunkComplete = None\<rparr>
        \<lparr>file_size = 209715200, file_type = js ''video/mp4'', video_duration = Some 1500,
           video_loads = True, data_url = Some (js ''data:video/mp4;base64,AAAA'')\<rparr>
        \<lparr>title = js ''Talk'', speakerName = js ''Ana'', category = js ''Professional''\<rparr>
        [\<lparr>blob = \<lparr>file_size = 209715200, file_type = js ''video/mp4'',
                   video_duration = Some 1500, video_loads = True,
                   data_url = Some (js ''data:video/mp4;base64,AAAA'')\<rparr>,
           startTime = 0, endTime = 600, index = 0, duration = 600\<rparr>,
         \<lparr>blob = \<lparr>file_size = 209715200, file_type = js ''video/mp4'',
                   video_duration = Some 1500, video_loads = True,
                   data_url = Some (js ''data:video/mp4;base64,AAAA'')\<rparr>,
           startTime = 600, endTime = 1200, index = 1, duration = 600\<rparr>,
         \<lparr>blob = \<lparr>file_size = 209715200, file_type = js ''video/mp4'',
                   video_duration = Some 1500, video_loads = True,
                   data_url = Some (js ''data:video/mp4;base64,AAAA'')\<rparr>,
           startTime = 1200, endTime = 1500, index = 2, duration = 300\<rparr>]
        0 ([], []) = Inl CallbackError"
proof -
  let ?oc = "\<lparr>chunkDurationMinutes = Some 10, onChunkProgress = Some (\<lambda>p. Throws),
           onChunkComplete = None\<rparr>"
  let ?env = "\<lparr>API_KEY = Some (js ''key''), GEMINI_API_KEY = None\<rparr>"
  let ?svc = "(\<lambda>key payload mime context.
        if title context = js ''Talk (Segment 2/3)'' then Inl ServiceError
        else Inr \<lparr>metadata = \<lparr>title = title context, speakerName = speakerName context,
                     category = category context, language = js ''English'',
                     tags = [js ''demo''], summary = js ''Spoken part''\<rparr>,
                   transcript = [\<lparr>timestamp = js ''00:05'', speaker = js ''Ana'',
                                   text_of = js ''Hello'', tone = js ''calm'',
                                   intent = js ''greet''\<rparr>]\<rparr>) :: Service"
  let ?oa = "\<lparr>chunkDurationMinutes = Some 10, onChunkProgress = Some (\<lambda>p. Returns),
           onChunkComplete = Some (\<lambda>p. Returns)\<rparr>"
  let ?ob = "\<lparr>chunkDurationMinutes = Some 10, onChunkProgress = Some (\<lambda>p. Returns),
           onChunkComplete = Some (\<lambda>p. Throws)\<rparr>"
  let ?f = "\<lparr>file_size = 209715200, file_type = js ''video/mp4'', video_duration = Some 1500,
        video_loads = True, data_url = Some (js ''data:video/mp4;base64,AAAA'')\<rparr>"
  let ?um = "\<lparr>title = js ''Talk'', speakerName = js ''Ana'', category = js ''Professional''\<rparr>"
  let ?c0 = "\<lparr>blob = ?f, startTime = 0, endTime = 600, index = 0, duration = 600\<rparr>"
  let ?c1 = "\<lparr>blob = ?f, startTime = 600, endTime = 1200, index = 1, duration = 600\<rparr>"
  let ?c2 = "\<lparr>blob = ?f, startTime = 1200, endTime = 1500, index = 2, duration = 300\<rparr>"
  let ?chunks = "[?c0, ?c1, ?c2]"
  let ?p2 = "\<lparr>metadata = \<lparr>title = js ''Talk'', speakerName = js ''Ana'',
                      category = js ''Professional'', language = js ''Unknown'', tags = [],
                      summary = js ''Chunk 2 processing failed''\<rparr>,
         transcript = []\<rparr>"
  have d1: "decimal (Suc 0) = js ''1''"
    by (simp add: decimal.simps digitChar_def js_def)
  have d2: "decimal (Suc (Suc 0)) = js ''2''"
    by (simp add: decimal.simps digitChar_def js_def)
  have d3: "decimal 3 = js ''3''"
    by (simp add: decimal.simps digitChar_def js_def)
  have qa: "\<forall>p. notify (onChunkProgress ?oa) p = Returns" by (simp add: notify_def)
  have ca: "\<forall>p. notify (onChunkComplete ?oa) p = Returns" by (simp add: notify_def)
  have qb: "\<forall>p. notify (onChunkProgress ?ob) p = Returns" by (simp add: notify_def)
  have cb: "\<forall>p. notify (onChunkComplete ?ob) p = Throws" by (simp add: notify_def)
  have fails: "process_chunk ?env ?svc ?f ?um 3 1 ?c1 = Inl ServiceError"
    by (simp add: process_chunk_def chunkToBase64_def processVideoWithGemini_def or_js_def d2 d3)
      (simp add: js_def)
  have ok: "\<exists>result. process_chunk ?env ?svc ?f ?um 3 0 ?c0 = Inr result"
    by (simp add: process_chunk_def chunkToBase64_def processVideoWithGemini_def or_js_def d1 d3)
      (simp add: js_def)
  have l3: "length ?chunks = 3" by simp
  have n0: "?chunks ! 0 = ?c0" by simp
  have n1: "?chunks ! 1 = ?c1" by simp
  have fails': "process_chunk ?env ?svc ?f ?um (length ?chunks) 1 (?chunks ! 1) = Inl ServiceError"
    unfolding l3 n1 by (rule fails)
  have text2: "js ''Chunk '' @ decimal (1 + 1) @ js '' processing failed'' =
      js ''Chunk 2 processing failed''"
    by (simp add: d2) (simp add: js_def)
  note ia = dispatch_loop_entries_per_segment
    [where options = ?oa and env = ?env and service = ?svc and f = ?f and um = ?um
       and chunks = ?chunks, THEN conjunct1, THEN mp, OF qa]
  note ib = dispatch_loop_entries_per_segment
    [where options = ?ob and env = ?env and service = ?svc and f = ?f and um = ?um
       and chunks = ?chunks, THEN conjunct1, THEN mp, OF qb]
  note ic = dispatch_loop_entries_per_segment
    [where options = ?oc and env = ?env and service = ?svc and f = ?f and um = ?um
       and chunks = ?chunks, THEN conjunct2]
  from ia obtain results durations
    where run: "dispatch_loop ?env ?svc ?oa ?f ?um ?chunks 0 ([], []) = Inr (results, durations)"
      and one: "(\<forall>i<length ?chunks. notify (onChunkComplete ?oa) (i + 1, length ?chunks) = Returns) \<longrightarrow>
        length results = length ?chunks \<and>
        durations = map duration ?chunks \<and>
        (\<forall>i<length ?chunks.
           results ! i =
             (case process_chunk ?env ?svc ?f ?um (length ?chunks) i (?chunks ! i) of
                Inr result \<Rightarrow> result
              | Inl e \<Rightarrow>
                  \<lparr>metadata =
                     \<lparr>title = title ?um, speakerName = speakerName ?um, category = category ?um,
                      language = js ''Unknown'', tags = [],
                      summary = js ''Chunk '' @ decimal (i + 1) @ js '' processing failed''\<rparr>,
                   transcript = []\<rparr>))"
    by (elim exE conjE)
  have returns: "\<forall>i<length ?chunks. notify (onChunkComplete ?oa) (i + 1, length ?chunks) = Returns"
    using ca by blast
  note all = one [THEN mp, OF returns]
  from all have len: "length results = length ?chunks" by (rule conjunct1)
  from all have durs: "durations = map duration ?chunks" by (elim conjE)
  from all have each: "\<forall>i<length ?chunks.
           results ! i =
             (case process_chunk ?env ?svc ?f ?um (length ?chunks) i (?chunks ! i) of
                Inr result \<Rightarrow> result
              | Inl e \<Rightarrow>
                  \<lparr>metadata =
                     \<lparr>title = title ?um, speakerName = speakerName ?um, category = category ?um,
                      language = js ''Unknown'', tags = [],
                      summary = js ''Chunk '' @ decimal (i + 1) @ js '' processing failed''\<rparr>,
                   transcript = []\<rparr>)"
    by (elim conjE)
  have lt: "1 < length ?chunks" by simp
  from each [rule_format, OF lt]
  have second: "results ! 1 = ?p2"
    unfolding fails' sum.case text2 by simp
  from len have three: "length results = 3" by simp
  from durs have d: "durations = [600, 600, 300]" by simp
  have "dispatch_loop ?env ?svc ?oa ?f ?um ?chunks 0 ([], []) = Inr (results, durations) \<and>
      length results = 3 \<and> durations = [600, 600, 300] \<and> results ! 1 = ?p2"
    by (intro conjI) (rule run three d second)+
  then have a: "\<exists>results durations.
      dispatch_loop ?env ?svc ?oa ?f ?um ?chunks 0 ([], []) = Inr (results, durations) \<and>
      length results = 3 \<and> durations = [600, 600, 300] \<and> results ! 1 = ?p2"
    by (intro exI)
  from ib obtain resultsb durationsb
    where runb: "dispatch_loop ?env ?svc ?ob ?f ?um ?chunks 0 ([], []) = Inr (resultsb, durationsb)"
      and more: "(\<exists>i<length ?chunks. \<exists>result.
          process_chunk ?env ?svc ?f ?um (length ?chunks) i (?chunks ! i) = Inr result \<and>
          notify (onChunkComplete ?ob) (i + 1, length ?chunks) = Throws) \<longrightarrow>
        length ?chunks < length resultsb \<and> length ?chunks < length durationsb"
    by (elim exE conjE)
  from ok obtain result where r0: "process_chunk ?env ?svc ?f ?um 3 0 ?c0 = Inr result" ..
  have r0': "process_chunk ?env ?svc ?f ?um (length ?chunks) 0 (?chunks ! 0) = Inr result"
    unfolding l3 n0 by (rule r0)
  have t0: "notify (onChunkComplete ?ob) (0 + 1, length ?chunks) = Throws"
    using cb by blast
  have "0 < length ?chunks" by simp
  with r0' t0 have "\<exists>i<length ?chunks. \<exists>result.
          process_chunk ?env ?svc ?f ?um (length ?chunks) i (?chunks ! i) = Inr result \<and>
          notify (onChunkComplete ?ob) (i + 1, length ?chunks) = Throws"
    by blast
  with more have "length ?chunks < length resultsb \<and> length ?chunks < length durationsb"
    by (rule mp)
  then have "3 < length resultsb" and "3 < length durationsb" by simp_all
  with runb have "dispatch_loop ?env ?svc ?ob ?f ?um ?chunks 0 ([], []) = Inr (resultsb, durationsb) \<and>
      3 < length resultsb \<and> 3 < length durationsb"
    by (intro conjI)
  then have b: "\<exists>results durations.
      dispatch_loop ?env ?svc ?ob ?f ?um ?chunks 0 ([], []) = Inr (results, durations) \<and>
      3 < length results \<and> 3 < length durations"
    by (intro exI)
  have tc: "notify (onChunkProgress ?oc)
      \<lparr>currentChunk = 1, totalChunks = 3, progress = (1 / 3) * 100,
         status = js ''Processing chunk 1 of 3...''\<rparr> = Throws"
    by (simp add: notify_def)
  have "?chunks \<noteq> [] \<and>
    notify (onChunkProgress ?oc)
      \<lparr>currentChunk = 1, totalChunks = length ?chunks,
         progress = (1 / real (length ?chunks)) * 100,
         status = js ''Processing chunk '' @ decimal 1 @ js '' of '' @
                  decimal (length ?chunks) @ js ''...''\<rparr> = Throws"
    by (simp add: notify_def)
  with ic have c: "dispatch_loop ?env ?svc ?oc ?f ?um ?chunks 0 ([], []) = Inl CallbackError"
    by (rule mp)
  show ?thesis
    by (intro conjI) (rule qa ca fails a qb cb ok b tc c)+
qed

lemma upt_two: "[0..<nat 2] = [0, 1]"
  by (simp add: upt_rec)

lemma mergeTranscripts_transcript:
  "chunks \<noteq> [] \<Longrightarrow>
   \<exists>m. mergeTranscripts lc chunks durs = Inr m \<and>
       transcript m = fst (merge_loop chunks durs 0 ([], 0))"
  by (cases chunks) (simp_all add: mergeTranscripts_def Let_def)

lemma chunked_run:
  assumes "shouldChunkVideo f 100 60"
    and "(case chunkDurationMinutes options of None \<Rightarrow> 15 | Some m \<Rightarrow> m) = minutes"
    and "\<forall>p. notify (onChunkProgress options) p = Returns"
    and "splitVideoIntoChunks f minutes (onChunkProgress options) = Some (Inr chunks)"
    and "dispatch_loop env service options f um chunks 0 ([], []) =
           Inr (chunkResults, chunkDurations)"
    and "mergeTranscripts lc chunkResults chunkDurations = Inr merged"
  shows "processVideoWithChunking env service lc f um options =
         Some (Inr (merged\<lparr>transcript := removeBoundaryDuplicates lc (transcript merged)\<rparr>))"
  using assms by (simp add: processVideoWithChunking_def Let_def)

text \<open>
  C4, as the specification states it, has one result and one duration for every segment.
  A 200 MB file of 1500.5 seconds is split into two chunks of 900 and 600.5 seconds; both
  adapter calls succeed, each with one entry at \<open>00:05\<close>; the completion callback throws.
  The loop ends with four results and the durations 900, 900, 600.5, 600.5, and the
  entry of the second chunk is merged at \<open>30:05\<close>, not at \<open>15:05\<close>.
\<close>

theorem dispatch_loop_completion_counterexample:
  "splitVideoIntoChunks
      \<lparr>file_size = 209715200, file_type = js ''video/mp4'', video_duration = Some 1500.5,
         video_loads = True, data_url = Some (js ''data:video/mp4;base64,AAAA'')\<rparr>
      15 None =
    Some (Inr [\<lparr>blob = \<lparr>file_size = 209715200, file_type = js ''video/mp4'',
                          video_duration = Some 1500.5, video_loads = True,
                          data_url = Some (js ''data:video/mp4;base64,AAAA'')\<rparr>,
                 startTime = 0, endTime = 900, index = 0, duration = 900\<rparr>,
               \<lparr>blob = \<lparr>file_size = 209715200, file_type = js ''video/mp4'',
                          video_duration = Some 1500.5, video_loads = True,
                          data_url = Some (js ''data:video/mp4;base64,AAAA'')\<rparr>,
                 startTime = 900, endTime = 1500.5, index = 1, duration = 600.5\<rparr>]) \<and>
   (\<exists>results.
      dispatch_loop \<lparr>API_KEY = Some (js ''key''), GEMINI_API_KEY = None\<rparr>
        (\<lambda>key payload mime context.
           Inr \<lparr>metadata = \<lparr>title = title context, speakerName = speakerName context,
                      category = category context, language = js ''English'',
                      tags = [js ''demo''], summary = js ''Spoken part''\<rparr>,
                 transcript = [\<lparr>timestamp = js ''00:05'', speaker = js ''Ana'',
                                 text_of = js ''Hello'', tone = js ''calm'',
                                 intent = js ''greet''\<rparr>]\<rparr>)
        \<lparr>chunkDurationMinutes = None, onChunkProgress = None,
           onChunkComplete = Some (\<lambda>p. Throws)\<rparr>
        \<lparr>file_size = 209715200, file_type = js ''video/mp4'', video_duration = Some 1500.5,
           video_loads = True, data_url = Some (js ''data:video/mp4;base64,AAAA'')\<rparr>
        \<lparr>title = js ''Talk'', speakerName = js ''Ana'', category = js ''Professional''\<rparr>
        [\<lparr>blob = \<lparr>file_size = 209715200, file_type = js ''video/mp4'',
                   video_duration = Some 1500.5, video_loads = True,
                   data_url = Some (js ''data:video/mp4;base64,AAAA'')\<rparr>,
           startTime = 0, endTime = 900, index = 0, duration = 900\<rparr>,
         \<lparr>blob = \<lparr>file_size = 209715200, file_type = js ''video/mp4'',
                   video_duration = Some 1500.5, video_loads = True,
                   data_url = Some (js ''data:video/mp4;base64,AAAA'')\<rparr>,
           startTime = 900, endTime = 1500.5, index = 1, duration = 600.5\<rparr>]
        0 ([], []) = Inr (results, [900, 900, 600.5, 600.5]) \<and>
      length results = 4) \<and>
   (\<exists>r. processVideoWithChunking \<lparr>API_KEY = Some (js ''key''), GEMINI_API_KEY = None\<rparr>
        (\<lambda>key payload mime context.
           Inr \<lparr>metadata = \<lparr>title = title context, speakerName = speakerName context,
                      category = category context, language = js ''English'',
                      tags = [js ''demo''], summary = js ''Spoken part''\<rparr>,
                 transcript = [\<lparr>timestamp = js ''00:05'', speaker = js ''Ana'',
                                 text_of = js ''Hello'', tone = js ''calm'',
                                 intent = js ''greet''\<rparr>]\<rparr>)
        lowerCaseUnits
        \<lparr>file_size = 209715200, file_type = js ''video/mp4'', video_duration = Some 1500.5,
           video_loads = True, data_url = Some (js ''data:video/mp4;base64,AAAA'')\<rparr>
        \<lparr>title = js ''Talk'', speakerName = js ''Ana'', category = js ''Professional''\<rparr>
        \<lparr>chunkDurationMinutes = None, onChunkProgress = None,
           onChunkComplete = Some (\<lambda>p. Throws)\<rparr> = Some (Inr r) \<and>
      map timestamp (transcript r) = [js ''00:05'', js ''30:05''])"
proof -
  let ?env = "\<lparr>API_KEY = Some (js ''key''), GEMINI_API_KEY = None\<rparr>"
  let ?svc = "(\<lambda>key payload mime context.
           Inr \<lparr>metadata = \<lparr>title = title context, speakerName = speakerName context,
                      category = category context, language = js ''English'',
                      tags = [js ''demo''], summary = js ''Spoken part''\<rparr>,
                 transcript = [\<lparr>timestamp = js ''00:05'', speaker = js ''Ana'',
                                 text_of = js ''Hello'', tone = js ''calm'',
                                 intent = js ''greet''\<rparr>]\<rparr>) :: Service"
  let ?opts = "\<lparr>chunkDurationMinutes = None, onChunkProgress = None,
           onChunkComplete = Some (\<lambda>p. Throws)\<rparr>"
  let ?f = "\<lparr>file_size = 209715200, file_type = js ''video/mp4'', video_duration = Some 1500.5,
           video_loads = True, data_url = Some (js ''data:video/mp4;base64,AAAA'')\<rparr>"
  let ?um = "\<lparr>title = js ''Talk'', speakerName = js ''Ana'', category = js ''Professional''\<rparr>"
  let ?c0 = "\<lparr>blob = ?f, startTime = 0, endTime = 900, index = 0, duration = 900\<rparr>"
  let ?c1 = "\<lparr>blob = ?f, startTime = 900, endTime = 1500.5, index = 1, duration = 600.5\<rparr>"
  let ?e = "\<lparr>timestamp = js ''00:05'', speaker = js ''Ana'', text_of = js ''Hello'',
              tone = js ''calm'', intent = js ''greet''\<rparr>"
  let ?e' = "\<lparr>timestamp = js ''30:05'', speaker = js ''Ana'', text_of = js ''Hello'',
              tone = js ''calm'', intent = js ''greet''\<rparr>"
  let ?r = "\<lambda>t. \<lparr>metadata = \<lparr>title = t, speakerName = js ''Ana'',
                      category = js ''Professional'', language = js ''English'',
                      tags = [js ''demo''], summary = js ''Spoken part''\<rparr>,
                 transcript = [?e]\<rparr>"
  let ?t0 = "js ''Talk (Segment 1/2)''"
  let ?t1 = "js ''Talk (Segment 2/2)''"
  have d1: "decimal (Suc 0) = js ''1''"
    by (simp add: decimal.simps digitChar_def js_def)
  have d2: "decimal (Suc (Suc 0)) = js ''2''"
    by (simp add: decimal.simps digitChar_def js_def)
  have quiet: "\<forall>p. notify (onChunkProgress ?opts) p = Returns"
    by (simp add: notify_def)
  have c: "\<lceil>1500.5 / (15 * 60 :: real)\<rceil> = 2" by simp
  have "splitVideoIntoChunks ?f 15 None =
    Some (Inr (map (\<lambda>k. \<lparr>blob = ?f, startTime = real k * (15 * 60),
                        endTime = min (real (k + 1) * (15 * 60)) 1500.5, index = k,
                        duration = min (real (k + 1) * (15 * 60)) 1500.5 - real k * (15 * 60)\<rparr>)
              [0..<nat \<lceil>1500.5 / (15 * 60 :: real)\<rceil>]))"
    by (rule splitVideoIntoChunks_plan) (simp_all add: notify_def)
  then have split: "splitVideoIntoChunks ?f 15 None = Some (Inr [?c0, ?c1])"
    unfolding c upt_two by simp
  have p0: "process_chunk ?env ?svc ?f ?um (length [?c0, ?c1]) 0 ([?c0, ?c1] ! 0) = Inr (?r ?t0)"
    by (simp add: process_chunk_def chunkToBase64_def processVideoWithGemini_def or_js_def d1 d2)
      (simp add: js_def)
  have p1: "process_chunk ?env ?svc ?f ?um (length [?c0, ?c1]) 1 ([?c0, ?c1] ! 1) = Inr (?r ?t1)"
    by (simp add: process_chunk_def chunkToBase64_def processVideoWithGemini_def or_js_def d1 d2)
      (simp add: js_def)
  have th: "\<And>p. notify (onChunkComplete ?opts) p = Throws"
    by (simp add: notify_def)
  have u: "[0..<length [?c0, ?c1]] = [0, 1]"
    by (simp add: upt_rec)
  have loop: "dispatch_loop ?env ?svc ?opts ?f ?um [?c0, ?c1] 0 ([], []) =
      Inr ([?r ?t0, failed_chunk ?um 0, ?r ?t1, failed_chunk ?um 1], [900, 900, 600.5, 600.5])"
    unfolding dispatch_loop_entries [OF quiet] u
    by (simp only: list.map concat.simps p0 p1 th sum.case outcome.case append.simps) simp
  have "length [?r ?t0, failed_chunk ?um 0, ?r ?t1, failed_chunk ?um 1] = 4" by simp
  with loop have second: "\<exists>results.
      dispatch_loop ?env ?svc ?opts ?f ?um [?c0, ?c1] 0 ([], []) =
        Inr (results, [900, 900, 600.5, 600.5]) \<and> length results = 4"
    by blast
  have need: "shouldChunkVideo ?f 100 60"
    by (simp add: shouldChunkVideo_def)
  have "adjustTimestamp (js ''00:05'') (real 0) = formatTimestamp (5 + 0)"
    by (rule adjustTimestamp_five) simp
  then have a0: "adjustTimestamp (js ''00:05'') 0 = js ''00:05''"
    by (simp add: js_def formatTimestamp_def decimal.simps digitChar_def padStart_def)
  have "adjustTimestamp (js ''00:05'') (real 1800) = formatTimestamp (5 + 1800)"
    by (rule adjustTimestamp_five) simp
  then have a1: "adjustTimestamp (js ''00:05'') 1800 = js ''30:05''"
    by (simp add: js_def formatTimestamp_def decimal.simps digitChar_def padStart_def)
  have ne: "js ''00:05'' \<noteq> js ''30:05''" by (simp add: js_def)
  have tr: "fst (merge_loop [?r ?t0, failed_chunk ?um 0, ?r ?t1, failed_chunk ?um 1]
               [900, 900, 600.5, 600.5] 0 ([], 0)) =
            [?e, ?e']"
    by (simp add: failed_chunk_def a0 a1)
  have dd: "removeBoundaryDuplicates lowerCaseUnits
              [?e, ?e'] =
            [?e, ?e']"
    by (simp add: removeBoundaryDuplicates_pass dedup_key_def) (simp add: js_def)
  have "\<exists>m. mergeTranscripts lowerCaseUnits
               [?r ?t0, failed_chunk ?um 0, ?r ?t1, failed_chunk ?um 1]
               [900, 900, 600.5, 600.5] = Inr m \<and>
             transcript m =
               fst (merge_loop [?r ?t0, failed_chunk ?um 0, ?r ?t1, failed_chunk ?um 1]
                      [900, 900, 600.5, 600.5] 0 ([], 0))"
    by (rule mergeTranscripts_transcript) simp
  then obtain m where merged: "mergeTranscripts lowerCaseUnits
               [?r ?t0, failed_chunk ?um 0, ?r ?t1, failed_chunk ?um 1]
               [900, 900, 600.5, 600.5] = Inr m"
    and tm: "transcript m = [?e, ?e']"
    unfolding tr by blast
  have opt: "(case chunkDurationMinutes ?opts of None \<Rightarrow> 15 | Some m \<Rightarrow> m) = (15::real)"
    by simp
  have split': "splitVideoIntoChunks ?f 15 (onChunkProgress ?opts) = Some (Inr [?c0, ?c1])"
    using split by simp
  have run: "processVideoWithChunking ?env ?svc lowerCaseUnits ?f ?um ?opts =
      Some (Inr (m\<lparr>transcript := removeBoundaryDuplicates lowerCaseUnits (transcript m)\<rparr>))"
    by (rule chunked_run [OF need opt quiet split' loop merged])
  have "transcript (m\<lparr>transcript := removeBoundaryDuplicates lowerCaseUnits (transcript m)\<rparr>) =
      [?e, ?e']"
    by (simp add: tm dd)
  with run have "\<exists>r. processVideoWithChunking ?env ?svc lowerCaseUnits ?f ?um ?opts = Some (Inr r) \<and>
      transcript r = [?e, ?e']"
    by blast
  then have third: "\<exists>r. processVideoWithChunking ?env ?svc lowerCaseUnits ?f ?um ?opts = Some (Inr r) \<and>
      map timestamp (transcript r) = [js ''00:05'', js ''30:05'']"
    by auto
  show ?thesis
    by (intro conjI) (rule split second third)+
qed


section \<open>A missing credential\<close>

lemma merge_loop_empty_transcripts:
  "(\<And>c. c \<in> set chunks \<Longrightarrow> transcript c = []) \<Longrightarrow>
   fst (merge_loop chunks durs i (merged, t)) = merged"
  by (induction chunks arbitrary: i merged t) simp_all

lemma mergeTranscripts_Cons:
  "mergeTranscripts lc (c # cs) durs =
   Inr \<lparr>metadata = (metadata c)
           \<lparr>tags := mergeTags lc (map (\<lambda>c. tags (metadata c)) (c # cs)),
            summary := mergeSummaries (map (\<lambda>c. summary (metadata c)) (c # cs)),
            language := mergeLanguages (map (\<lambda>c. language (metadata c)) (c # cs))\<rparr>,
         transcript = fst (merge_loop (c # cs) durs 0 ([], 0))\<rparr>"
  by (simp add: mergeTranscripts_def Let_def)

lemma processVideoWithGemini_credential:
  "credentialMissing env \<Longrightarrow>
   processVideoWithGemini env service base64 mimeType um = Inl ApiKeyNotSet"
  by (auto simp: credentialMissing_def processVideoWithGemini_def split: option.splits)

lemma process_chunk_credential:
  "credentialMissing env \<Longrightarrow> \<exists>e. process_chunk env service f um n i chunk = Inl e"
  by (simp add: process_chunk_def Let_def processVideoWithGemini_credential split: sum.split)

lemma dispatch_loop_credential:
  assumes "credentialMissing env" and "\<forall>p. notify (onChunkProgress options) p = Returns"
  shows "dispatch_loop env service options f um chunks 0 ([], []) =
         Inr (map (failed_chunk um) [0..<length chunks], map duration chunks)"
proof -
  have e: "(case process_chunk env service f um (length chunks) k (chunks ! k) of
              Inl e \<Rightarrow> [failed_chunk um k]
            | Inr result \<Rightarrow>
                (case notify (onChunkComplete options) (k + 1, length chunks) of
                   Returns \<Rightarrow> [result]
                 | Throws \<Rightarrow> [result, failed_chunk um k])) = [failed_chunk um k]" for k
    using process_chunk_credential [OF assms(1), of service f um "length chunks" k "chunks ! k"]
    by auto
  have d: "(case process_chunk env service f um (length chunks) k (chunks ! k) of
              Inl e \<Rightarrow> [duration (chunks ! k)]
            | Inr result \<Rightarrow>
                (case notify (onChunkComplete options) (k + 1, length chunks) of
                   Returns \<Rightarrow> [duration (chunks ! k)]
                 | Throws \<Rightarrow> [duration (chunks ! k), duration (chunks ! k)])) =
           [duration (chunks ! k)]" for k
    using process_chunk_credential [OF assms(1), of service f um "length chunks" k "chunks ! k"]
    by auto
  have m: "map (\<lambda>k. duration (chunks ! k)) [0..<length chunks] = map duration chunks"
    by (rule map_nth_upt)
  show ?thesis
    unfolding dispatch_loop_entries [OF assms(2)] e d
    by (simp add: concat_singletons [where g = "failed_chunk um"]
        concat_singletons [where g = "\<lambda>k. duration (chunks ! k)"] m)
qed

text \<open>
  C3, as the code has it. With the credential missing, \<open>processVideoWithGemini\<close> fails
  with the credential error whatever the service would answer, and
  \<open>processVideoWithChunking\<close> passes that error on when the video is not chunked and its
  data can be read. When the video is chunked (its duration is reported and positive, the
  video loads, the chunk length is positive and the progress callback is absent or never
  throws), the dispatch loop catches the error of every chunk: its results are the
  placeholders of all chunks, with the chunks' durations, and the call returns a merged
  result with the caller's title, speaker and category and an empty transcript instead of
  the credential error.
\<close>

theorem credential_missing_outcomes:
  "credentialMissing env \<longrightarrow>
     processVideoWithGemini env service payload mimeType um = Inl ApiKeyNotSet \<and>
     (\<not> shouldChunkVideo f 100 60 \<and> data_url f = Some url \<longrightarrow>
        processVideoWithChunking env service lc f um options = Some (Inl ApiKeyNotSet)) \<and>
     (shouldChunkVideo g 100 60 \<and> video_duration g = Some D \<and> 0 < D \<and> video_loads g \<and>
      0 < (case chunkDurationMinutes options of None \<Rightarrow> 15 | Some m \<Rightarrow> m) \<and>
      (\<forall>p. notify (onChunkProgress options) p = Returns) \<longrightarrow>
        (\<exists>chunks.
           splitVideoIntoChunks g (case chunkDurationMinutes options of None \<Rightarrow> 15 | Some m \<Rightarrow> m)
             (onChunkProgress options) = Some (Inr chunks) \<and>
           chunks \<noteq> [] \<and>
           dispatch_loop env service options g um chunks 0 ([], []) =
             Inr (map (failed_chunk um) [0..<length chunks], map duration chunks)) \<and>
        (\<exists>r. processVideoWithChunking env service lc g um options = Some (Inr r) \<and>
           transcript r = [] \<and> title (metadata r) = title um \<and>
           speakerName (metadata r) = speakerName um \<and> category (metadata r) = category um))"
proof
  assume missing: "credentialMissing env"
  let ?minutes = "case chunkDurationMinutes options of None \<Rightarrow> 15 | Some m \<Rightarrow> m"
  have direct: "processVideoWithGemini env service payload mimeType um = Inl ApiKeyNotSet"
    using missing by (rule processVideoWithGemini_credential)
  have whole: "processVideoWithChunking env service lc f um options = Some (Inl ApiKeyNotSet)"
    if "\<not> shouldChunkVideo f 100 60" and "data_url f = Some url"
    using that missing
    by (simp add: processVideoWithChunking_def Let_def processVideoWithGemini_credential)
  have chunked: "(\<exists>chunks.
           splitVideoIntoChunks g ?minutes (onChunkProgress options) = Some (Inr chunks) \<and>
           chunks \<noteq> [] \<and>
           dispatch_loop env service options g um chunks 0 ([], []) =
             Inr (map (failed_chunk um) [0..<length chunks], map duration chunks)) \<and>
        (\<exists>r. processVideoWithChunking env service lc g um options = Some (Inr r) \<and>
           transcript r = [] \<and> title (metadata r) = title um \<and>
           speakerName (metadata r) = speakerName um \<and> category (metadata r) = category um)"
    if need: "shouldChunkVideo g 100 60" and dur: "video_duration g = Some D" and pos: "0 < D"
      and loads: "video_loads g" and len: "0 < ?minutes"
      and quiet: "\<forall>p. notify (onChunkProgress options) p = Returns"
  proof -
    let ?n = "nat \<lceil>D / (?minutes * 60)\<rceil>"
    let ?chunks = "map (\<lambda>k. \<lparr>blob = g, startTime = real k * (?minutes * 60),
                        endTime = min (real (k + 1) * (?minutes * 60)) D, index = k,
                        duration = min (real (k + 1) * (?minutes * 60)) D -
                                   real k * (?minutes * 60)\<rparr>)
                    [0..<?n]"
    have split: "splitVideoIntoChunks g ?minutes (onChunkProgress options) = Some (Inr ?chunks)"
      using dur loads len quiet by (rule splitVideoIntoChunks_plan)
    have "0 < D / (?minutes * 60)" using pos len by simp
    then have "0 < \<lceil>D / (?minutes * 60)\<rceil>" by (simp add: less_ceiling_iff)
    then have n: "0 < ?n" by simp
    then have ne: "?chunks \<noteq> []" by simp
    have loop: "dispatch_loop env service options g um ?chunks 0 ([], []) =
        Inr (map (failed_chunk um) [0..<length ?chunks], map duration ?chunks)"
      using missing quiet by (rule dispatch_loop_credential)
    let ?results = "map (failed_chunk um) [0..<length ?chunks]"
    have "[0..<length ?chunks] = 0 # [1..<length ?chunks]"
      using n by (simp add: upt_conv_Cons)
    then have ps: "?results = failed_chunk um 0 # map (failed_chunk um) [1..<length ?chunks]"
      by (simp only: list.map)
    have empty: "\<And>c. c \<in> set ?results \<Longrightarrow> transcript c = []"
      by (auto simp: failed_chunk_def)
    have tr: "fst (merge_loop ?results (map duration ?chunks) 0 ([], 0)) = []"
      using empty by (rule merge_loop_empty_transcripts)
    have "\<exists>m. mergeTranscripts lc ?results (map duration ?chunks) = Inr m \<and>
        transcript m = fst (merge_loop ?results (map duration ?chunks) 0 ([], 0)) \<and>
        title (metadata m) = title um \<and> speakerName (metadata m) = speakerName um \<and>
        category (metadata m) = category um"
      unfolding ps mergeTranscripts_Cons by (simp add: failed_chunk_def)
    then obtain m where m: "mergeTranscripts lc ?results (map duration ?chunks) = Inr m"
      and tm: "transcript m = []" and t: "title (metadata m) = title um"
      and s: "speakerName (metadata m) = speakerName um"
      and c: "category (metadata m) = category um"
      unfolding tr by blast
    have run: "processVideoWithChunking env service lc g um options =
          Some (Inr (m\<lparr>transcript := removeBoundaryDuplicates lc (transcript m)\<rparr>))"
      by (rule chunked_run [OF need refl quiet split loop m])
    have "\<exists>r. processVideoWithChunking env service lc g um options = Some (Inr r) \<and>
           transcript r = [] \<and> title (metadata r) = title um \<and>
           speakerName (metadata r) = speakerName um \<and> category (metadata r) = category um"
      unfolding run using tm t s c by (simp add: removeBoundaryDuplicates_def)
    with split ne loop show ?thesis by blast
  qed
  from direct whole chunked
  show "processVideoWithGemini env service payload mimeType um = Inl ApiKeyNotSet \<and>
     (\<not> shouldChunkVideo f 100 60 \<and> data_url f = Some url \<longrightarrow>
        processVideoWithChunking env service lc f um options = Some (Inl ApiKeyNotSet)) \<and>
     (shouldChunkVideo g 100 60 \<and> video_duration g = Some D \<and> 0 < D \<and> video_loads g \<and>
      0 < (case chunkDurationMinutes options of None \<Rightarrow> 15 | Some m \<Rightarrow> m) \<and>
      (\<forall>p. notify (onChunkProgress options) p = Returns) \<longrightarrow>
        (\<exists>chunks.
           splitVideoIntoChunks g (case chunkDurationMinutes options of None \<Rightarrow> 15 | Some m \<Rightarrow> m)
             (onChunkProgress options) = Some (Inr chunks) \<and>
           chunks \<noteq> [] \<and>
           dispatch_loop env service options g um chunks 0 ([], []) =
             Inr (map (failed_chunk um) [0..<length chunks], map duration chunks)) \<and>
        (\<exists>r. processVideoWithChunking env service lc g um options = Some (Inr r) \<and>
           transcript r = [] \<and> title (metadata r) = title um \<and>
           speakerName (metadata r) = speakerName um \<and> category (metadata r) = category um))"
    by blast
qed

theorem credential_missing_outcomes_witness:
  "credentialMissing \<lparr>API_KEY = None, GEMINI_API_KEY = Some (js '''')\<rparr> \<and>
   processVideoWithGemini \<lparr>API_KEY = None, GEMINI_API_KEY = Some (js '''')\<rparr>
      (\<lambda>key payload mime context.
         Inr \<lparr>metadata = \<lparr>title = title context, speakerName = speakerName context,
                    category = category context, language = js ''English'',
                    tags = [js ''demo''], summary = js ''Spoken part''\<rparr>,
               transcript = []\<rparr>)
      (Some (js ''AAAA'')) (js ''video/mp4'')
      \<lparr>title = js ''Talk'', speakerName = js ''Ana'', category = js ''Professional''\<rparr> =
     Inl ApiKeyNotSet \<and>
   \<not> shouldChunkVideo
       \<lparr>file_size = 10485760, file_type = js ''video/mp4'', video_duration = Some 300,
          video_loads = True, data_url = Some (js ''data:video/mp4;base64,AAAA'')\<rparr> 100 60 \<and>
   data_url \<lparr>file_size = 10485760, file_type = js ''video/mp4'', video_duration = Some 300,
          video_loads = True, data_url = Some (js ''data:video/mp4;base64,AAAA'')\<rparr> =
     Some (js ''data:video/mp4;base64,AAAA'') \<and>
   processVideoWithChunking \<lparr>API_KEY = None, GEMINI_API_KEY = Some (js '''')\<rparr>
      (\<lambda>key payload mime context.
         Inr \<lparr>metadata = \<lparr>title = title context, speakerName = speakerName context,
                    category = category context, language = js ''English'',
                    tags = [js ''demo''], summary = js ''Spoken part''\<rparr>,
               transcript = []\<rparr>)
      lowerCaseUnits
      \<lparr>file_size = 10485760, file_type = js ''video/mp4'', video_duration = Some 300,
         video_loads = True, data_url = Some (js ''data:video/mp4;base64,AAAA'')\<rparr>
      \<lparr>title = js ''Talk'', speakerName = js ''Ana'', category = js ''Professional''\<rparr>
      \<lparr>chunkDurationMinutes = None, onChunkProgress = None, onChunkComplete = None\<rparr> =
     Some (Inl ApiKeyNotSet) \<and>
   shouldChunkVideo
      \<lparr>file_size = 209715200, file_type = js ''video/mp4'', video_duration = Some 1500.5,
         video_loads = True, data_url = Some (js ''data:video/mp4;base64,AAAA'')\<rparr> 100 60 \<and>
   video_duration
      \<lparr>file_size = 209715200, file_type = js ''video/mp4'', video_duration = Some 1500.5,
         video_loads = True, data_url = Some (js ''data:video/mp4;base64,AAAA'')\<rparr> =
     Some 1500.5 \<and>
   (0::real) < 1500.5 \<and>
   video_loads
      \<lparr>file_size = 209715200, file_type = js ''video/mp4'', video_duration = Some 1500.5,
         video_loads = True, data_url = Some (js ''data:video/mp4;base64,AAAA'')\<rparr> \<and>
   (0::real) < (case chunkDurationMinutes
                       \<lparr>chunkDurationMinutes = None, onChunkProgress = None,
                          onChunkComplete = None\<rparr> of
                  None \<Rightarrow> 15 | Some m \<Rightarrow> m) \<and>
   (\<forall>p. notify (onChunkProgress
                   \<lparr>chunkDurationMinutes = None, onChunkProgress = None,
                      onChunkComplete = None\<rparr>) p = Returns) \<and>
   (\<exists>r. processVideoWithChunking \<lparr>API_KEY = None, GEMINI_API_KEY = Some (js '''')\<rparr>
      (\<lambda>key payload mime context.
         Inr \<lparr>metadata = \<lparr>title = title context, speakerName = speakerName context,
                    category = category context, language = js ''English'',
                    tags = [js ''demo''], summary = js ''Spoken part''\<rparr>,
               transcript = []\<rparr>)
      lowerCaseUnits
      \<lparr>file_size = 209715200, file_type = js ''video/mp4'', video_duration = Some 1500.5,
         video_loads = True, data_url = Some (js ''data:video/mp4;base64,AAAA'')\<rparr>
      \<lparr>title = js ''Talk'', speakerName = js ''Ana'', category = js ''Professional''\<rparr>
      \<lparr>chunkDurationMinutes = None, onChunkProgress = None, onChunkComplete = None\<rparr> =
        Some (Inr r) \<and>
      transcript r = [] \<and> title (metadata r) = js ''Talk'')"
proof -
  let ?env = "\<lparr>API_KEY = None, GEMINI_API_KEY = Some (js '''')\<rparr>"
  let ?svc = "(\<lambda>key payload mime context.
         Inr \<lparr>metadata = \<lparr>title = title context, speakerName = speakerName context,
                    category = category context, language = js ''English'',
                    tags = [js ''demo''], summary = js ''Spoken part''\<rparr>,
               transcript = []\<rparr>) :: Service"
  let ?f = "\<lparr>file_size = 209715200, file_type = js ''video/mp4'', video_duration = Some 1500.5,
         video_loads = True, data_url = Some (js ''data:video/mp4;base64,AAAA'')\<rparr>"
  let ?small = "\<lparr>file_size = 10485760, file_type = js ''video/mp4'', video_duration = Some 300,
         video_loads = True, data_url = Some (js ''data:video/mp4;base64,AAAA'')\<rparr>"
  let ?um = "\<lparr>title = js ''Talk'', speakerName = js ''Ana'', category = js ''Professional''\<rparr>"
  let ?opts = "\<lparr>chunkDurationMinutes = None, onChunkProgress = None, onChunkComplete = None\<rparr>"
  have missing: "credentialMissing ?env"
    by (simp add: credentialMissing_def or_js_def js_def)
  have s1: "\<not> shouldChunkVideo ?small 100 60"
    by (simp add: shouldChunkVideo_def getVideoDuration_def)
  have s2: "data_url ?small = Some (js ''data:video/mp4;base64,AAAA'')"
    by simp
  have need: "shouldChunkVideo ?f 100 60"
    by (simp add: shouldChunkVideo_def)
  have dur: "video_duration ?f = Some 1500.5" by simp
  have pos: "(0::real) < 1500.5" by simp
  have loads: "video_loads ?f" by simp
  have len: "(0::real) < (case chunkDurationMinutes ?opts of None \<Rightarrow> 15 | Some m \<Rightarrow> m)"
    by simp
  have quiet: "\<forall>p. notify (onChunkProgress ?opts) p = Returns"
    by (simp add: notify_def)
  note inst = credential_missing_outcomes
    [where env = ?env and service = ?svc and payload = "Some (js ''AAAA'')"
       and mimeType = "js ''video/mp4''" and um = ?um and lc = lowerCaseUnits and f = ?small
       and url = "js ''data:video/mp4;base64,AAAA''" and options = ?opts and g = ?f
       and D = "1500.5", THEN mp, OF missing]
  note direct = inst [THEN conjunct1]
  note whole = inst [THEN conjunct2, THEN conjunct1, THEN mp, OF conjI, OF s1 s2]
  have large: "shouldChunkVideo ?f 100 60 \<and> video_duration ?f = Some 1500.5 \<and> 0 < (1500.5::real) \<and>
      video_loads ?f \<and>
      (0::real) < (case chunkDurationMinutes ?opts of None \<Rightarrow> 15 | Some m \<Rightarrow> m) \<and>
      (\<forall>p. notify (onChunkProgress ?opts) p = Returns)"
    by (intro conjI) (rule need dur pos loads len quiet)+
  note chunked = inst [THEN conjunct2, THEN conjunct2, THEN mp, OF large, THEN conjunct2]
  from chunked have run: "\<exists>r. processVideoWithChunking ?env ?svc lowerCaseUnits ?f ?um ?opts =
        Some (Inr r) \<and> transcript r = [] \<and> title (metadata r) = js ''Talk''"
    by auto
  show ?thesis
    by (intro conjI) (rule missing direct s1 s2 whole need dur pos loads len quiet run)+
qed

text \<open>
  C3, as the specification states it, has a missing credential surfaced as an error with
  no placeholder produced. With no credential, a 200 MB file of 1500.5 seconds is split into
  two chunks, both calls fail with the credential error, and the caller gets a result made
  of the two placeholders instead of that error.
\<close>

theorem credential_missing_chunked_counterexample:
  "credentialMissing \<lparr>API_KEY = None, GEMINI_API_KEY = Some (js '''')\<rparr> \<and>
   processVideoWithChunking \<lparr>API_KEY = None, GEMINI_API_KEY = Some (js '''')\<rparr>
      (\<lambda>key payload mime context.
         Inr \<lparr>metadata = \<lparr>title = title context, speakerName = speakerName context,
                    category = category context, language = js ''English'',
                    tags = [js ''demo''], summary = js ''Spoken part''\<rparr>,
               transcript = []\<rparr>)
      lowerCaseUnits
      \<lparr>file_size = 209715200, file_type = js ''video/mp4'', video_duration = Some 1500.5,
         video_loads = True, data_url = Some (js ''data:video/mp4;base64,AAAA'')\<rparr>
      \<lparr>title = js ''Talk'', speakerName = js ''Ana'', category = js ''Professional''\<rparr>
      \<lparr>chunkDurationMinutes = None, onChunkProgress = None, onChunkComplete = None\<rparr> =
    Some (Inr \<lparr>metadata = \<lparr>title = js ''Talk'', speakerName = js ''Ana'',
                            category = js ''Professional'', language = js ''Unknown'', tags = [],
                            summary = js ''Chunk 1 processing failed Chunk 2 processing failed''\<rparr>,
               transcript = []\<rparr>)"
proof -
  let ?env = "\<lparr>API_KEY = None, GEMINI_API_KEY = Some (js '''')\<rparr>"
  let ?svc = "(\<lambda>key payload mime context.
         Inr \<lparr>metadata = \<lparr>title = title context, speakerName = speakerName context,
                    category = category context, language = js ''English'',
                    tags = [js ''demo''], summary = js ''Spoken part''\<rparr>,
               transcript = []\<rparr>) :: Service"
  let ?f = "\<lparr>file_size = 209715200, file_type = js ''video/mp4'', video_duration = Some 1500.5,
         video_loads = True, data_url = Some (js ''data:video/mp4;base64,AAAA'')\<rparr>"
  let ?um = "\<lparr>title = js ''Talk'', speakerName = js ''Ana'', category = js ''Professional''\<rparr>"
  let ?opts = "\<lparr>chunkDurationMinutes = None, onChunkProgress = None, onChunkComplete = None\<rparr>"
  let ?c0 = "\<lparr>blob = ?f, startTime = 0, endTime = 900, index = 0, duration = 900\<rparr>"
  let ?c1 = "\<lparr>blob = ?f, startTime = 900, endTime = 1500.5, index = 1, duration = 600.5\<rparr>"
  let ?p0 = "\<lparr>metadata = \<lparr>title = js ''Talk'', speakerName = js ''Ana'',
                 category = js ''Professional'', language = js ''Unknown'', tags = [],
                 summary = js ''Chunk 1 processing failed''\<rparr>,
               transcript = []\<rparr>"
  let ?p1 = "\<lparr>metadata = \<lparr>title = js ''Talk'', speakerName = js ''Ana'',
                 category = js ''Professional'', language = js ''Unknown'', tags = [],
                 summary = js ''Chunk 2 processing failed''\<rparr>,
               transcript = []\<rparr>"
  let ?m = "\<lparr>metadata = \<lparr>title = js ''Talk'', speakerName = js ''Ana'',
                            category = js ''Professional'', language = js ''Unknown'', tags = [],
                            summary = js ''Chunk 1 processing failed Chunk 2 processing failed''\<rparr>,
               transcript = []\<rparr>"
  have missing: "credentialMissing ?env"
    by (simp add: credentialMissing_def or_js_def js_def)
  have quiet: "\<forall>p. notify (onChunkProgress ?opts) p = Returns"
    by (simp add: notify_def)
  have need: "shouldChunkVideo ?f 100 60"
    by (simp add: shouldChunkVideo_def)
  have c: "\<lceil>1500.5 / (15 * 60 :: real)\<rceil> = 2" by simp
  have "splitVideoIntoChunks ?f 15 None =
    Some (Inr (map (\<lambda>k. \<lparr>blob = ?f, startTime = real k * (15 * 60),
                        endTime = min (real (k + 1) * (15 * 60)) 1500.5, index = k,
                        duration = min (real (k + 1) * (15 * 60)) 1500.5 - real k * (15 * 60)\<rparr>)
              [0..<nat \<lceil>1500.5 / (15 * 60 :: real)\<rceil>]))"
    by (rule splitVideoIntoChunks_plan) (simp_all add: notify_def)
  then have "splitVideoIntoChunks ?f 15 None = Some (Inr [?c0, ?c1])"
    unfolding c upt_two by simp
  then have split: "splitVideoIntoChunks ?f 15 (onChunkProgress ?opts) = Some (Inr [?c0, ?c1])"
    by simp
  have d1: "decimal (Suc 0) = js ''1''"
    by (simp add: decimal.simps digitChar_def js_def)
  have d2: "decimal (Suc (Suc 0)) = js ''2''"
    by (simp add: decimal.simps digitChar_def js_def)
  have f0: "failed_chunk ?um 0 = ?p0"
    by (simp add: failed_chunk_def d1) (simp add: js_def)
  have f1: "failed_chunk ?um (Suc 0) = ?p1"
    by (simp add: failed_chunk_def d2) (simp add: js_def)
  have "dispatch_loop ?env ?svc ?opts ?f ?um [?c0, ?c1] 0 ([], []) =
      Inr (map (failed_chunk ?um) [0..<length [?c0, ?c1]], map duration [?c0, ?c1])"
    using missing quiet by (rule dispatch_loop_credential)
  also have "map (failed_chunk ?um) [0..<length [?c0, ?c1]] = [?p0, ?p1]"
    by (simp add: upt_rec f0 f1)
  also have "map duration [?c0, ?c1] = [900, 600.5]" by simp
  finally have loop: "dispatch_loop ?env ?svc ?opts ?f ?um [?c0, ?c1] 0 ([], []) =
      Inr ([?p0, ?p1], [900, 600.5])" .
  have tags: "mergeTags lowerCaseUnits (map (\<lambda>c. tags (metadata c)) [?p0, ?p1]) = []"
    by (simp add: mergeTags_def)
  have langs: "mergeLanguages (map (\<lambda>c. language (metadata c)) [?p0, ?p1]) = js ''Unknown''"
    by (simp add: mergeLanguages_def set_add_def trim_def isSpace_def js_def)
  have sums: "mergeSummaries (map (\<lambda>c. summary (metadata c)) [?p0, ?p1]) =
      js ''Chunk 1 processing failed Chunk 2 processing failed''"
    by (simp add: mergeSummaries_def set_add_def js_def)
  have "mergeTranscripts lowerCaseUnits [?p0, ?p1] [900, 600.5] =
    Inr \<lparr>metadata = (metadata ?p0)
           \<lparr>tags := mergeTags lowerCaseUnits (map (\<lambda>c. tags (metadata c)) [?p0, ?p1]),
            summary := mergeSummaries (map (\<lambda>c. summary (metadata c)) [?p0, ?p1]),
            language := mergeLanguages (map (\<lambda>c. language (metadata c)) [?p0, ?p1])\<rparr>,
         transcript = fst (merge_loop [?p0, ?p1] [900, 600.5] 0 ([], 0))\<rparr>"
    by (rule mergeTranscripts_Cons)
  also have "\<dots> = Inr ?m"
    unfolding tags langs sums by simp
  finally have merged: "mergeTranscripts lowerCaseUnits [?p0, ?p1] [900, 600.5] = Inr ?m" .
  have opt: "(case chunkDurationMinutes ?opts of None \<Rightarrow> 15 | Some m \<Rightarrow> m) = (15::real)"
    by simp
  have "processVideoWithChunking ?env ?svc lowerCaseUnits ?f ?um ?opts =
        Some (Inr (?m\<lparr>transcript := removeBoundaryDuplicates lowerCaseUnits (transcript ?m)\<rparr>))"
    by (rule chunked_run [OF need opt quiet split loop merged])
  also have "?m\<lparr>transcript := removeBoundaryDuplicates lowerCaseUnits (transcript ?m)\<rparr> = ?m"
    by (simp add: removeBoundaryDuplicates_def)
  finally have run: "processVideoWithChunking ?env ?svc lowerCaseUnits ?f ?um ?opts = Some (Inr ?m)" .
  from missing run show ?thesis by (rule conjI)
qed

end
